theory Spec2Isabelle
  imports Main "HOL-Library.Word" "HOL-Library.Signed_Division" "HOL-Library.List_Lexorder"
    "HOL-Library.Multiset" "HOL-Library.AList"
begin

unbundle bit_operations_syntax

section \<open>Machine integers and run-time panics\<close>

text \<open>
  Go's \<open>int64\<close> and \<open>uint64\<close> are 64-bit words: \<open>+\<close>, \<open>-\<close> and \<open>*\<close> wrap, the
  conversion \<open>int64(x)\<close> of a \<open>uint64\<close> keeps the bits, \<open>sint\<close> reads the signed
  value and \<open>unat\<close>/\<open>uint\<close> the unsigned one.
\<close>

type_synonym int64 = "64 word"
type_synonym uint64 = "64 word"
type_synonym byte = "8 word"
type_synonym bytes = "byte list"

datatype panic = DivideByZero | IndexOutOfRange | NilPointer

text \<open>
  Go's \<open>/\<close> on \<open>int64\<close>: the quotient is truncated towards zero (\<open>sdiv\<close> on the signed
  values), the result wraps (\<open>MinInt64 / -1 = MinInt64\<close>), and a zero divisor panics.
\<close>

definition quo64 :: "int64 \<Rightarrow> int64 \<Rightarrow> int64" where
  "quo64 a b = word_of_int (sint a sdiv sint b)"

definition int64_quo :: "int64 \<Rightarrow> int64 \<Rightarrow> panic + int64" where
  "int64_quo a b = (if b = 0 then Inl DivideByZero else Inr (quo64 a b))"

text \<open>
  \<open>binary.BigEndian.PutUint64\<close> writes the eight bytes of a value, the most significant
  first; \<open>binary.BigEndian.Uint64\<close> reads them back and panics on fewer than eight bytes.
\<close>

definition PutUint64 :: "uint64 \<Rightarrow> byte list" where
  "PutUint64 v = map (\<lambda>i. ucast (drop_bit (8 * i) v)) [7, 6, 5, 4, 3, 2, 1, 0]"

definition Uint64 :: "byte list \<Rightarrow> panic + uint64" where
  "Uint64 b =
     (if length b < 8 then Inl IndexOutOfRange
      else Inr (foldl (\<lambda>acc x. push_bit 8 acc OR ucast x) 0 (take 8 b)))"

section \<open>Slot scheduler (dpos.go, PrevSlot and NextSlot)\<close>

text \<open>
  \<^verbatim>\<open>return int64((now-1)/int64(blockInterval)) * int64(blockInterval)\<close>
\<close>

definition PrevSlot :: "int64 \<Rightarrow> uint64 \<Rightarrow> panic + int64" where
  "PrevSlot now blockInterval =
     (case int64_quo (now - 1) blockInterval of
        Inl p \<Rightarrow> Inl p
      | Inr q \<Rightarrow> Inr (q * blockInterval))"

text \<open>
  \<^verbatim>\<open>return int64((now+int64(blockInterval)-1)/int64(blockInterval)) * int64(blockInterval)\<close>
\<close>

definition NextSlot :: "int64 \<Rightarrow> uint64 \<Rightarrow> panic + int64" where
  "NextSlot now blockInterval =
     (case int64_quo (now + blockInterval - 1) blockInterval of
        Inl p \<Rightarrow> Inl p
      | Inr q \<Rightarrow> Inr (q * blockInterval))"

section \<open>Bytes, addresses, hashes and errors\<close>

text \<open>\<open>common.Address\<close> is \<open>[20]byte\<close>; \<open>Bytes\<close> is its method \<open>Bytes()\<close>.\<close>

typedef address = "{bs :: byte list. length bs = 20}"
  by (rule exI [of _ "replicate 20 0"]) simp

definition Bytes :: "address \<Rightarrow> bytes" where
  "Bytes a = Rep_address a"

text \<open>
  \<open>common.BytesToAddress\<close>: the last 20 bytes of the input, padded with zero bytes on
  the left.
\<close>

definition BytesToAddress :: "bytes \<Rightarrow> address" where
  "BytesToAddress b =
     Abs_address (let c = drop (length b - 20) b in replicate (20 - length c) 0 @ c)"

instantiation address :: equal
begin

definition equal_address :: "address \<Rightarrow> address \<Rightarrow> bool" where
  "equal_address a b = (Rep_address a = Rep_address b)"

instance
  by standard (simp add: equal_address_def Rep_address_inject)

end

text \<open>\<open>common.Hash\<close> is \<open>[32]byte\<close>; \<open>common.Hash{}\<close> is the zero hash.\<close>

type_synonym hash = bytes

definition zero_hash :: hash where
  "zero_hash = replicate 32 0"

text \<open>
  The values of Go's \<open>error\<close> that the modelled code creates or passes on.
  \<open>MissingNodeError\<close> is \<open>*trie.MissingNodeError\<close>, \<open>StorageError\<close> any other error of
  the trie or of the key-value store.
\<close>

datatype error =
    MissingNodeError
  | StorageError
  | ErrInvalidCandidateToDelegate
  | ErrInvalidCandidateToUndelegate
  | ErrMismatchCandidateToUndelegate
  | ErrUnexpectedEOF
  | ErrRlpDecode
  | ErrRlpEncode
  | ErrFailedToDecodeValidators error
  | ErrFailedToEncodeValidators error
  | errMissingSignature
  | ErrMismatchSignerAndValidator
  | ErrInvalidBlockValidator
  | ErrNilBlockHeader
  | ErrEcrecover
  | ErrNotFound

text \<open>A Go byte slice that may be \<open>nil\<close>: \<open>None\<close> is \<open>nil\<close>, read as the empty slice.\<close>

definition slice :: "bytes option \<Rightarrow> bytes" where
  "slice v = (case v of None \<Rightarrow> [] | Some bs \<Rightarrow> bs)"

section \<open>The trie (package trie, an external collaborator)\<close>

text \<open>
  Modelled from the spec: package \<open>trie\<close> is not among the sources. The spec describes a
  trie as an authenticated key-value map with a distinct byte prefix, whose reads and writes
  may fail with \<open>MissingNode\<close>, which is prefix-iterable, and where writing an empty value
  removes the key. \<open>entries\<close> holds the key-value pairs, \<open>fault\<close> says which error, if any,
  an access to a key meets in the backing store (\<open>\<lambda>_. None\<close>: no storage error), and
  \<open>commit_fault\<close> which error, if any, a commit meets.
\<close>

record trie =
  prefix :: bytes
  entries :: "(bytes \<times> bytes) list"
  fault :: "bytes \<Rightarrow> error option"
  commit_fault :: "error option"

definition TryGet :: "trie \<Rightarrow> bytes \<Rightarrow> error + bytes option" where
  "TryGet t k = (case fault t k of Some e \<Rightarrow> Inl e | None \<Rightarrow> Inr (map_of (entries t) k))"

definition TryDelete :: "trie \<Rightarrow> bytes \<Rightarrow> error option \<times> trie" where
  "TryDelete t k =
     (case fault t k of
        Some e \<Rightarrow> (Some e, t)
      | None \<Rightarrow> (None, t\<lparr>entries := AList.delete k (entries t)\<rparr>))"

definition TryUpdate :: "trie \<Rightarrow> bytes \<Rightarrow> bytes \<Rightarrow> error option \<times> trie" where
  "TryUpdate t k v =
     (case fault t k of
        Some e \<Rightarrow> (Some e, t)
      | None \<Rightarrow>
          (None, t\<lparr>entries := (if v = [] then AList.delete k (entries t)
                                 else AList.update k v (entries t))\<rparr>))"

text \<open>
  \<open>lookup t k\<close> is the value stored under \<open>k\<close>, whatever the state of the storage;
  \<open>no_fault t\<close> says that no access to \<open>t\<close> meets a storage error.
\<close>

definition lookup :: "trie \<Rightarrow> bytes \<Rightarrow> bytes option" where
  "lookup t k = map_of (entries t) k"

definition no_fault :: "trie \<Rightarrow> bool" where
  "no_fault t \<longleftrightarrow> (\<forall>k. fault t k = None)"

text \<open>\<open>Get\<close>, \<open>Update\<close> and \<open>Delete\<close> log the error of their \<open>Try\<close> variant and go on.\<close>

definition Get :: "trie \<Rightarrow> bytes \<Rightarrow> bytes option" where
  "Get t k = (case TryGet t k of Inl e \<Rightarrow> None | Inr v \<Rightarrow> v)"

definition Update :: "trie \<Rightarrow> bytes \<Rightarrow> bytes \<Rightarrow> trie" where
  "Update t k v = snd (TryUpdate t k v)"

definition Delete :: "trie \<Rightarrow> bytes \<Rightarrow> trie" where
  "Delete t k = snd (TryDelete t k)"

text \<open>
  Iteration visits the leaves in ascending key order. \<open>PrefixIterator p\<close> visits the keys
  that start with \<open>p\<close>, \<open>NodeIterator start\<close> the keys from \<open>start\<close> on. An iterator works
  on the trie as it was when the iterator was made.
\<close>

definition leaves :: "trie \<Rightarrow> (bytes \<times> bytes) list" where
  "leaves t =
     List.map_filter (\<lambda>k. map_option (Pair k) (map_of (entries t) k))
       (sort (remdups (map fst (entries t))))"

definition HasPrefix :: "bytes \<Rightarrow> bytes \<Rightarrow> bool" where
  "HasPrefix s p = (take (length p) s = p)"

definition PrefixIterator :: "trie \<Rightarrow> bytes \<Rightarrow> (bytes \<times> bytes) list" where
  "PrefixIterator t p = filter (\<lambda>kv. HasPrefix (fst kv) p) (leaves t)"

definition NodeIterator :: "trie \<Rightarrow> bytes \<Rightarrow> (bytes \<times> bytes) list" where
  "NodeIterator t start = filter (\<lambda>kv. start \<le> fst kv) (leaves t)"

text \<open>
  \<open>trie.Database\<close>: resolves the root of a committed trie to its content.
  \<open>NewTrieWithPrefix\<close> opens the trie with the given root; the zero root is the empty trie
  and needs no node of the store.
\<close>

type_synonym Database = "hash \<Rightarrow> (bytes \<times> bytes) list option"

definition NewTrieWithPrefix :: "hash \<Rightarrow> bytes \<Rightarrow> Database \<Rightarrow> error + trie" where
  "NewTrieWithPrefix root pfx database =
     (if root = zero_hash
      then Inr \<lparr>prefix = pfx, entries = [], fault = (\<lambda>_. None), commit_fault = None\<rparr>
      else (case database root of
              None \<Rightarrow> Inl MissingNodeError
            | Some es \<Rightarrow>
                Inr \<lparr>prefix = pfx, entries = es, fault = (\<lambda>_. None), commit_fault = None\<rparr>))"

section \<open>DposContext (src/unnamed/part_000)\<close>

record DposContext =
  epochTrie :: trie
  delegateTrie :: trie
  voteTrie :: trie
  candidateTrie :: trie
  mintCntTrie :: trie
  db :: "Database option"

definition epochPrefix :: bytes where "epochPrefix = map (of_nat \<circ> of_char) ''epoch-''"
definition delegatePrefix :: bytes where "delegatePrefix = map (of_nat \<circ> of_char) ''delegate-''"
definition votePrefix :: bytes where "votePrefix = map (of_nat \<circ> of_char) ''vote-''"
definition candidatePrefix :: bytes where
  "candidatePrefix = map (of_nat \<circ> of_char) ''candidate-''"
definition mintCntPrefix :: bytes where "mintCntPrefix = map (of_nat \<circ> of_char) ''mintCnt-''"

definition NewDposContext :: "Database \<Rightarrow> error + DposContext" where
  "NewDposContext database =
     (case NewTrieWithPrefix zero_hash epochPrefix database of
        Inl err \<Rightarrow> Inl err
      | Inr epochT \<Rightarrow>
     (case NewTrieWithPrefix zero_hash delegatePrefix database of
        Inl err \<Rightarrow> Inl err
      | Inr delegateT \<Rightarrow>
     (case NewTrieWithPrefix zero_hash votePrefix database of
        Inl err \<Rightarrow> Inl err
      | Inr voteT \<Rightarrow>
     (case NewTrieWithPrefix zero_hash candidatePrefix database of
        Inl err \<Rightarrow> Inl err
      | Inr candidateT \<Rightarrow>
     (case NewTrieWithPrefix zero_hash mintCntPrefix database of
        Inl err \<Rightarrow> Inl err
      | Inr mintCntT \<Rightarrow>
          Inr \<lparr>epochTrie = epochT, delegateTrie = delegateT, voteTrie = voteT,
               candidateTrie = candidateT, mintCntTrie = mintCntT,
               db = Some database\<rparr>)))))"

text \<open>No access to one of the five tries meets a storage error.\<close>

definition no_storage_errors :: "DposContext \<Rightarrow> bool" where
  "no_storage_errors d \<longleftrightarrow>
     no_fault (epochTrie d) \<and> no_fault (delegateTrie d) \<and> no_fault (voteTrie d)
     \<and> no_fault (candidateTrie d) \<and> no_fault (mintCntTrie d)"

text \<open>
  The data model of the delegate trie: every row has a key \<open>candidate \<parallel> voter\<close> and the
  voter as its value.
\<close>

definition delegate_rows :: "trie \<Rightarrow> bool" where
  "delegate_rows t \<longleftrightarrow>
     (\<forall>k v. lookup t k = Some v \<longrightarrow> (\<exists>C V. k = Bytes C @ Bytes V \<and> v = Bytes V))"

text \<open>
  The mutating methods return their error (\<open>None\<close> is Go's \<open>nil\<close>) together with the
  context as the call leaves it, also when it fails half-way.
\<close>

definition BecomeCandidate :: "address \<Rightarrow> DposContext \<Rightarrow> error option \<times> DposContext" where
  "BecomeCandidate candidateAddr d =
     (let candidate = Bytes candidateAddr;
          (err, ct) = TryUpdate (candidateTrie d) candidate candidate
      in (err, d\<lparr>candidateTrie := ct\<rparr>))"

text \<open>
  The loop of \<open>KickoutCandidate\<close> over the leaves of the prefix iterator. A
  \<open>MissingNodeError\<close> is passed over, any other error is returned at once.
\<close>

fun kickout_loop ::
  "bytes \<Rightarrow> (bytes \<times> bytes) list \<Rightarrow> trie \<Rightarrow> trie \<Rightarrow> error option \<times> trie \<times> trie" where
  "kickout_loop candidate [] dt vt = (None, dt, vt)"
| "kickout_loop candidate (kv # rest) dt vt =
     (let delegator = snd kv;
          key = candidate @ delegator;
          (err, dt1) = TryDelete dt key
      in if err \<noteq> None \<and> err \<noteq> Some MissingNodeError then (err, dt1, vt)
         else
           (case TryGet vt delegator of
              Inl e \<Rightarrow>
                if e \<noteq> MissingNodeError then (Some e, dt1, vt)
                else kickout_loop candidate rest dt1 vt
            | Inr v \<Rightarrow>
                if slice v = candidate then
                  (let (err2, vt1) = TryDelete vt delegator
                   in if err2 \<noteq> None \<and> err2 \<noteq> Some MissingNodeError then (err2, dt1, vt1)
                      else kickout_loop candidate rest dt1 vt1)
                else kickout_loop candidate rest dt1 vt))"

definition KickoutCandidate :: "address \<Rightarrow> DposContext \<Rightarrow> error option \<times> DposContext" where
  "KickoutCandidate candidateAddr d =
     (let candidate = Bytes candidateAddr;
          (err, ct) = TryDelete (candidateTrie d) candidate
      in if err \<noteq> None \<and> err \<noteq> Some MissingNodeError then (err, d\<lparr>candidateTrie := ct\<rparr>)
         else
           (let iter = PrefixIterator (delegateTrie d) candidate;
                (err1, dt, vt) = kickout_loop candidate iter (delegateTrie d) (voteTrie d)
            in (err1, d\<lparr>candidateTrie := ct, delegateTrie := dt, voteTrie := vt\<rparr>)))"

definition Delegate :: "address \<Rightarrow> address \<Rightarrow> DposContext \<Rightarrow> error option \<times> DposContext" where
  "Delegate delegatorAddr candidateAddr d =
     (let delegator = Bytes delegatorAddr; candidate = Bytes candidateAddr
      in case TryGet (candidateTrie d) candidate of
           Inl err \<Rightarrow> (Some err, d)
         | Inr candidateInTrie \<Rightarrow>
             if candidateInTrie = None then (Some ErrInvalidCandidateToDelegate, d)
             else
               (case (case TryGet (voteTrie d) delegator of
                        Inl err \<Rightarrow> if err \<noteq> MissingNodeError then Inl err else Inr None
                      | Inr v \<Rightarrow> Inr v) of
                  Inl err \<Rightarrow> (Some err, d)
                | Inr oldCandidate \<Rightarrow>
                    (let dt0 = (case oldCandidate of
                                  None \<Rightarrow> delegateTrie d
                                | Some old \<Rightarrow> Delete (delegateTrie d) (old @ delegator));
                         (err1, dt) = TryUpdate dt0 (candidate @ delegator) delegator
                     in if err1 \<noteq> None then (err1, d\<lparr>delegateTrie := dt\<rparr>)
                        else
                          (let (err2, vt) = TryUpdate (voteTrie d) delegator candidate
                           in (err2, d\<lparr>delegateTrie := dt, voteTrie := vt\<rparr>)))))"

definition UnDelegate :: "address \<Rightarrow> address \<Rightarrow> DposContext \<Rightarrow> error option \<times> DposContext" where
  "UnDelegate delegatorAddr candidateAddr d =
     (let delegator = Bytes delegatorAddr; candidate = Bytes candidateAddr
      in case TryGet (candidateTrie d) candidate of
           Inl err \<Rightarrow> (Some err, d)
         | Inr candidateInTrie \<Rightarrow>
             if candidateInTrie = None then (Some ErrInvalidCandidateToUndelegate, d)
             else
               (case TryGet (voteTrie d) delegator of
                  Inl err \<Rightarrow> (Some err, d)
                | Inr oldCandidate \<Rightarrow>
                    if candidate \<noteq> slice oldCandidate
                    then (Some ErrMismatchCandidateToUndelegate, d)
                    else
                      (let (err1, dt) = TryDelete (delegateTrie d) (candidate @ delegator)
                       in if err1 \<noteq> None then (err1, d\<lparr>delegateTrie := dt\<rparr>)
                          else
                            (let (err2, vt) = TryDelete (voteTrie d) delegator
                             in (err2, d\<lparr>delegateTrie := dt, voteTrie := vt\<rparr>)))))"

text \<open>
  Sequences of the four vote operations, run one after the other; an operation that
  returns an error leaves the context as the failed call left it.
\<close>

datatype operation =
    OpBecomeCandidate address
  | OpKickoutCandidate address
  | OpDelegate address address
  | OpUnDelegate address address

fun apply_operation :: "operation \<Rightarrow> DposContext \<Rightarrow> error option \<times> DposContext" where
  "apply_operation (OpBecomeCandidate a) d = BecomeCandidate a d"
| "apply_operation (OpKickoutCandidate a) d = KickoutCandidate a d"
| "apply_operation (OpDelegate v c) d = Delegate v c d"
| "apply_operation (OpUnDelegate v c) d = UnDelegate v c d"

fun run :: "operation list \<Rightarrow> DposContext \<Rightarrow> DposContext" where
  "run [] d = d"
| "run (op # ops) d = run ops (snd (apply_operation op d))"

text \<open>
  The pairs (candidate, voter) of the delegate trie, read off its 40-byte keys, and the
  pairs (vote[voter], voter) of the vote trie, as multisets.
\<close>

definition delegate_pairs :: "DposContext \<Rightarrow> (bytes \<times> bytes) multiset" where
  "delegate_pairs d =
     mset (map (\<lambda>kv. (take 20 (fst kv), drop 20 (fst kv))) (leaves (delegateTrie d)))"

definition vote_pairs :: "DposContext \<Rightarrow> (bytes \<times> bytes) multiset" where
  "vote_pairs d = mset (map (\<lambda>kv. (snd kv, fst kv)) (leaves (voteTrie d)))"

text \<open>
  The invariant behind the equality: delegate rows and vote rows are made of addresses,
  and the row \<open>C \<parallel> V \<mapsto> V\<close> is in the delegate trie exactly when \<open>V \<mapsto> C\<close> is in the
  vote trie.
\<close>

definition consistent :: "DposContext \<Rightarrow> bool" where
  "consistent d \<longleftrightarrow>
     delegate_rows (delegateTrie d)
     \<and> (\<forall>x c. lookup (voteTrie d) x = Some c \<longrightarrow> (\<exists>V C. x = Bytes V \<and> c = Bytes C))
     \<and> (\<forall>C V. lookup (delegateTrie d) (Bytes C @ Bytes V) = Some (Bytes V)
                \<longleftrightarrow> lookup (voteTrie d) (Bytes V) = Some (Bytes C))"

text \<open>
  Data of the scenarios: the store with no committed trie, the addresses
  \<open>0x0101\<dots>01\<close>, \<open>0x0202\<dots>02\<close>, \<dots>, the context that \<open>NewDposContext\<close> returns on
  the empty store, and contexts built from it.
\<close>

definition empty_database :: Database where
  "empty_database = (\<lambda>root. None)"

definition scenario_address :: "nat \<Rightarrow> address" where
  "scenario_address n = BytesToAddress (replicate 20 (of_nat n))"

definition empty_context :: DposContext where
  "empty_context = projr (NewDposContext empty_database)"

definition two_candidates :: DposContext where
  "two_candidates =
     snd (BecomeCandidate (scenario_address 2) (snd (BecomeCandidate (scenario_address 1) empty_context)))"

definition two_delegators :: DposContext where
  "two_delegators =
     snd (Delegate (scenario_address 4) (scenario_address 1)
       (snd (Delegate (scenario_address 3) (scenario_address 1)
          (snd (BecomeCandidate (scenario_address 1) empty_context)))))"


text \<open>
  \<open>Commit\<close>. \<open>trie_Commit\<close> is \<open>(*Trie).Commit\<close>: it returns the root of the trie, or the
  error the commit meets; the root is the digest \<open>hashT\<close> of the trie, a parameter. The calls
  that \<open>Commit\<close> makes on the tries and on the backing store are recorded in the order in
  which they are made. A nil \<open>d.db\<close> (as \<open>Copy\<close> leaves it) panics at the first flush.
\<close>

record DposContextProto =
  EpochHash :: hash
  DelegateHash :: hash
  CandidateHash :: hash
  VoteHash :: hash
  MintCntHash :: hash

datatype trie_id = EpochT | DelegateT | VoteT | CandidateT | MintCntT

datatype effect = TrieCommit trie_id | DbCommit hash

definition trie_Commit :: "(trie \<Rightarrow> hash) \<Rightarrow> trie \<Rightarrow> error + hash" where
  "trie_Commit hashT t = (case commit_fault t of Some err \<Rightarrow> Inl err | None \<Rightarrow> Inr (hashT t))"

text \<open>\<^verbatim>\<open>t.TryUpdate(root[:], t.Get(root[:]))\<close>, its error dropped.\<close>

definition self_update :: "trie \<Rightarrow> hash \<Rightarrow> trie" where
  "self_update t root = snd (TryUpdate t root (slice (Get t root)))"

definition Commit ::
  "(trie \<Rightarrow> hash) \<Rightarrow> DposContext
     \<Rightarrow> (panic + error + DposContextProto) \<times> DposContext \<times> effect list" where
  "Commit hashT d =
     (case trie_Commit hashT (epochTrie d) of
        Inl err \<Rightarrow> (Inr (Inl err), d, [TrieCommit EpochT])
      | Inr epochRoot \<Rightarrow>
     (let d1 = d\<lparr>epochTrie := self_update (epochTrie d) epochRoot\<rparr> in
      case trie_Commit hashT (delegateTrie d1) of
        Inl err \<Rightarrow> (Inr (Inl err), d1, [TrieCommit EpochT, TrieCommit DelegateT])
      | Inr delegateRoot \<Rightarrow>
     (let d2 = d1\<lparr>delegateTrie := self_update (delegateTrie d1) delegateRoot\<rparr> in
      case trie_Commit hashT (voteTrie d2) of
        Inl err \<Rightarrow>
          (Inr (Inl err), d2, [TrieCommit EpochT, TrieCommit DelegateT, TrieCommit VoteT])
      | Inr voteRoot \<Rightarrow>
     (let d3 = d2\<lparr>voteTrie := self_update (voteTrie d2) voteRoot\<rparr> in
      case trie_Commit hashT (candidateTrie d3) of
        Inl err \<Rightarrow>
          (Inr (Inl err), d3,
           [TrieCommit EpochT, TrieCommit DelegateT, TrieCommit VoteT, TrieCommit CandidateT])
      | Inr candidateRoot \<Rightarrow>
     (let d4 = d3\<lparr>candidateTrie := self_update (candidateTrie d3) candidateRoot\<rparr> in
      case trie_Commit hashT (mintCntTrie d4) of
        Inl err \<Rightarrow>
          (Inr (Inl err), d4,
           [TrieCommit EpochT, TrieCommit DelegateT, TrieCommit VoteT, TrieCommit CandidateT,
            TrieCommit MintCntT])
      | Inr mintCntRoot \<Rightarrow>
     (let d5 = d4\<lparr>mintCntTrie := self_update (mintCntTrie d4) mintCntRoot\<rparr>;
          commits = [TrieCommit EpochT, TrieCommit DelegateT, TrieCommit VoteT,
                     TrieCommit CandidateT, TrieCommit MintCntT]
      in case db d5 of
           None \<Rightarrow> (Inl NilPointer, d5, commits)
         | Some database \<Rightarrow>
             (Inr (Inr \<lparr>EpochHash = epochRoot, DelegateHash = delegateRoot,
                        CandidateHash = candidateRoot, VoteHash = voteRoot,
                        MintCntHash = mintCntRoot\<rparr>),
              d5,
              commits @ [DbCommit epochRoot, DbCommit delegateRoot, DbCommit candidateRoot,
                         DbCommit voteRoot, DbCommit mintCntRoot])))))))"

text \<open>The roots that a list of effects flushes to the backing store, in order.\<close>

fun flushed :: "effect list \<Rightarrow> hash list" where
  "flushed [] = []"
| "flushed (TrieCommit i # es) = flushed es"
| "flushed (DbCommit r # es) = r # flushed es"

fun committed :: "effect list \<Rightarrow> trie_id list" where
  "committed [] = []"
| "committed (TrieCommit i # es) = i # committed es"
| "committed (DbCommit r # es) = committed es"

text \<open>
  A stand-in for the Merkle root in the scenarios: the prefixed keys and the values of the
  leaves, one after the other.
\<close>

definition scenario_root :: "trie \<Rightarrow> hash" where
  "scenario_root t = concat (map (\<lambda>kv. prefix t @ fst kv @ snd kv) (leaves t))"

section \<open>Root, Snapshot and RevertToSnapShot\<close>

text \<open>
  Modelled from the spec: package \<open>rlp\<close> is not among the sources. The canonical
  length-prefixed encoding of a byte string: a single byte below \<open>0x80\<close> is its own
  encoding; otherwise the string follows a header that holds its length (\<open>0x80 + length\<close>
  below 56 bytes, else \<open>0xb7 +\<close> the number of length bytes, then the length, big-endian).
  A list has the same header with \<open>0xc0\<close> and \<open>0xf7\<close> in front of its encoded elements.
\<close>

fun putint :: "nat \<Rightarrow> bytes" where
  "putint n = (if n = 0 then [] else putint (n div 256) @ [of_nat (n mod 256)])"

declare putint.simps [simp del]

definition rlp_header :: "byte \<Rightarrow> nat \<Rightarrow> bytes" where
  "rlp_header offset n =
     (if n < 56 then [offset + of_nat n]
      else (offset + 55 + of_nat (length (putint n))) # putint n)"

definition rlp_string :: "bytes \<Rightarrow> bytes" where
  "rlp_string b =
     (if length b = 1 \<and> hd b < 128 then b else rlp_header 128 (length b) @ b)"

text \<open>
  \<open>Root\<close>: Keccak-256 (a parameter) over the encodings of the five roots, in the order
  epoch, delegate, candidate, vote, mintCnt.
\<close>

definition Root :: "(bytes \<Rightarrow> hash) \<Rightarrow> (trie \<Rightarrow> hash) \<Rightarrow> DposContext \<Rightarrow> hash" where
  "Root keccak hashT d =
     keccak (rlp_string (hashT (epochTrie d)) @ rlp_string (hashT (delegateTrie d))
             @ rlp_string (hashT (candidateTrie d)) @ rlp_string (hashT (voteTrie d))
             @ rlp_string (hashT (mintCntTrie d)))"

text \<open>
  \<open>Copy\<close>, \<open>Snapshot\<close> and \<open>RevertToSnapShot\<close> work on the pointers of the struct: a
  \<open>*trie.Trie\<close> is an index into the heap of \<open>Trie\<close> objects, and a \<open>DposContext\<close> value
  holds five of them. \<open>load\<close> reads the five objects (a pointer outside the heap is a nil
  dereference), \<open>store\<close> writes them back in place, and \<open>call m\<close> is a method call that
  mutates the objects the context points to. The five pointers of a context are distinct,
  as \<open>NewDposContext\<close> and \<open>Copy\<close> make them.
\<close>

type_synonym heap = "trie list"

record DposContextPtr =
  epochTrieP :: nat
  delegateTrieP :: nat
  voteTrieP :: nat
  candidateTrieP :: nat
  mintCntTrieP :: nat
  dbP :: "Database option"

definition pointers :: "DposContextPtr \<Rightarrow> nat list" where
  "pointers p = [epochTrieP p, delegateTrieP p, voteTrieP p, candidateTrieP p, mintCntTrieP p]"

definition valid_pointers :: "heap \<Rightarrow> DposContextPtr \<Rightarrow> bool" where
  "valid_pointers h p \<longleftrightarrow> distinct (pointers p) \<and> list_all (\<lambda>i. i < length h) (pointers p)"

definition load :: "heap \<Rightarrow> DposContextPtr \<Rightarrow> panic + DposContext" where
  "load h p =
     (if list_all (\<lambda>i. i < length h) (pointers p)
      then Inr \<lparr>epochTrie = h ! epochTrieP p, delegateTrie = h ! delegateTrieP p,
                voteTrie = h ! voteTrieP p, candidateTrie = h ! candidateTrieP p,
                mintCntTrie = h ! mintCntTrieP p, db = dbP p\<rparr>
      else Inl NilPointer)"

definition store :: "DposContextPtr \<Rightarrow> DposContext \<Rightarrow> heap \<Rightarrow> heap" where
  "store p d h =
     h[epochTrieP p := epochTrie d, delegateTrieP p := delegateTrie d,
       voteTrieP p := voteTrie d, candidateTrieP p := candidateTrie d,
       mintCntTrieP p := mintCntTrie d]"

definition call ::
  "(DposContext \<Rightarrow> 'r \<times> DposContext) \<Rightarrow> DposContextPtr \<Rightarrow> heap \<Rightarrow> panic + 'r \<times> heap" where
  "call m p h =
     (case load h p of
        Inl x \<Rightarrow> Inl x
      | Inr d \<Rightarrow> Inr (fst (m d), store p (snd (m d)) h))"

fun calls ::
  "(DposContext \<Rightarrow> error option \<times> DposContext) list \<Rightarrow> DposContextPtr \<Rightarrow> heap \<Rightarrow> panic + heap"
  where
  "calls [] p h = Inr h"
| "calls (m # ms) p h =
     (case call m p h of Inl x \<Rightarrow> Inl x | Inr rh \<Rightarrow> calls ms p (snd rh))"

definition Copy :: "DposContextPtr \<Rightarrow> heap \<Rightarrow> panic + DposContextPtr \<times> heap" where
  "Copy p h =
     (case load h p of
        Inl x \<Rightarrow> Inl x
      | Inr d \<Rightarrow>
          Inr (\<lparr>epochTrieP = length h, delegateTrieP = length h + 1,
                voteTrieP = length h + 2, candidateTrieP = length h + 3,
                mintCntTrieP = length h + 4, dbP = None\<rparr>,
               h @ [epochTrie d, delegateTrie d, voteTrie d, candidateTrie d, mintCntTrie d]))"

definition Snapshot :: "DposContextPtr \<Rightarrow> heap \<Rightarrow> panic + DposContextPtr \<times> heap" where
  "Snapshot p h = Copy p h"

definition RevertToSnapShot :: "DposContextPtr \<Rightarrow> DposContextPtr \<Rightarrow> DposContextPtr" where
  "RevertToSnapShot p snapshot =
     p\<lparr>epochTrieP := epochTrieP snapshot, delegateTrieP := delegateTrieP snapshot,
       candidateTrieP := candidateTrieP snapshot, voteTrieP := voteTrieP snapshot,
       mintCntTrieP := mintCntTrieP snapshot\<rparr>"

definition RootP ::
  "(bytes \<Rightarrow> hash) \<Rightarrow> (trie \<Rightarrow> hash) \<Rightarrow> DposContextPtr \<Rightarrow> heap \<Rightarrow> panic + hash" where
  "RootP keccak hashT p h =
     (case load h p of Inl x \<Rightarrow> Inl x | Inr d \<Rightarrow> Inr (Root keccak hashT d))"

text \<open>The context of \<open>NewDposContext\<close> laid out on a heap of its own.\<close>

definition on_heap :: "DposContext \<Rightarrow> DposContextPtr \<times> heap" where
  "on_heap d =
     (\<lparr>epochTrieP = 0, delegateTrieP = 1, voteTrieP = 2, candidateTrieP = 3,
       mintCntTrieP = 4, dbP = db d\<rparr>,
      [epochTrie d, delegateTrie d, voteTrie d, candidateTrie d, mintCntTrie d])"

section \<open>The consensus engine (src/go-ethereum/consensus/dpos/dpos.go)\<close>

text \<open>
  \<open>(*big.Int).Uint64()\<close> returns the low 64 bits of the absolute value;
  \<open>(*big.Int).Int64()\<close> returns them as an \<open>int64\<close>, negated when the number is negative.
\<close>

definition big_Uint64 :: "int \<Rightarrow> uint64" where
  "big_Uint64 x = word_of_int \<bar>x\<bar>"

definition big_Int64 :: "int \<Rightarrow> int64" where
  "big_Int64 x = (if x < 0 then - word_of_int \<bar>x\<bar> else word_of_int \<bar>x\<bar>)"

text \<open>
  The fields of \<open>types.Header\<close> that the modelled code reads. \<open>Number\<close> and \<open>Time\<close> are
  \<open>*big.Int\<close>, modelled as \<open>int\<close>; \<open>big_Uint64\<close> and \<open>big_Int64\<close> are their methods
  \<open>Uint64()\<close> and \<open>Int64()\<close>. \<open>MaxValidatorSize\<close> is taken to be a \<open>uint64\<close>, as
  \<open>BlockInterval\<close> is.
\<close>

record Header =
  ParentHash :: hash
  Validator :: address
  Number :: int
  Time :: int
  Extra :: bytes
  MaxValidatorSize :: uint64

text \<open>
  The primitives that the engine calls and that are not part of it: \<open>HeaderHash\<close> is the
  method \<open>Hash()\<close> of a header, \<open>RecoverSigner h sig\<close> the address that
  \<open>crypto.Ecrecover\<close> and \<open>crypto.Keccak256\<close> derive from \<open>sigHash(h)\<close> and the
  signature \<open>sig\<close>, or the error of the recovery.
\<close>

record primitives =
  HeaderHash :: "Header \<Rightarrow> hash"
  RecoverSigner :: "Header \<Rightarrow> bytes \<Rightarrow> error + address"

text \<open>\<open>ethdb.Database\<close>: a key-value store whose \<open>Put\<close> may fail.\<close>

record ethdb =
  content :: "bytes \<Rightarrow> bytes option"
  put_fault :: "error option"

definition ethdb_Get :: "ethdb \<Rightarrow> bytes \<Rightarrow> error + bytes" where
  "ethdb_Get kv k = (case content kv k of None \<Rightarrow> Inl ErrNotFound | Some v \<Rightarrow> Inr v)"

definition ethdb_Put :: "ethdb \<Rightarrow> bytes \<Rightarrow> bytes \<Rightarrow> error option \<times> ethdb" where
  "ethdb_Put kv k v =
     (case put_fault kv of
        Some err \<Rightarrow> (Some err, kv)
      | None \<Rightarrow> (None, kv\<lparr>content := (content kv)(k \<mapsto> v)\<rparr>))"

text \<open>
  The fields of \<open>Dpos\<close> that the modelled methods use: the store \<open>db\<close>, the cache
  \<open>signatures\<close> (a map from header hashes to signers) and the confirmed header.
\<close>

record Dpos =
  db_Dpos :: ethdb
  signatures :: "hash \<Rightarrow> address option"
  confirmedBlockHeader :: "Header option"

record ChainReader =
  CurrentHeader :: "Header option"
  GetHeaderByNumber :: "uint64 \<Rightarrow> Header option"
  GetHeaderByHash :: "hash \<Rightarrow> Header option"

definition extraSeal :: nat where "extraSeal = 65"

definition epochInterval :: int64 where "epochInterval = 86400"

definition confirmedBlockHead :: bytes where
  "confirmedBlockHead = map (of_nat \<circ> of_char) ''confirmed-block-head''"

text \<open>\<open>common.BytesToHash\<close>: the last 32 bytes, padded with zero bytes on the left.\<close>

definition BytesToHash :: "bytes \<Rightarrow> hash" where
  "BytesToHash b = (let c = drop (length b - 32) b in replicate (32 - length c) 0 @ c)"

text \<open>
  \<open>ecrecover\<close>: the cached signer of the header's hash if there is one; else the signer
  recovered from the last 65 bytes of \<open>Extra\<close>, which is then cached.
\<close>

definition ecrecover ::
  "primitives \<Rightarrow> Header \<Rightarrow> (hash \<Rightarrow> address option)
     \<Rightarrow> (error + address) \<times> (hash \<Rightarrow> address option)" where
  "ecrecover ext header sigcache =
     (let hash = HeaderHash ext header
      in case sigcache hash of
           Some address \<Rightarrow> (Inr address, sigcache)
         | None \<Rightarrow>
             if length (Extra header) < extraSeal then (Inl errMissingSignature, sigcache)
             else
               (let signature = drop (length (Extra header) - extraSeal) (Extra header)
                in case RecoverSigner ext header signature of
                     Inl err \<Rightarrow> (Inl err, sigcache)
                   | Inr signer \<Rightarrow> (Inr signer, sigcache(hash \<mapsto> signer))))"

definition verifyBlockSigner ::
  "primitives \<Rightarrow> address \<Rightarrow> Header \<Rightarrow> Dpos \<Rightarrow> error option \<times> Dpos" where
  "verifyBlockSigner ext validator header d =
     (let (r, cache) = ecrecover ext header (signatures d);
          d1 = d\<lparr>signatures := cache\<rparr>
      in case r of
           Inl err \<Rightarrow> (Some err, d1)
         | Inr signer \<Rightarrow>
             if Bytes signer \<noteq> Bytes validator then (Some ErrInvalidBlockValidator, d1)
             else if Bytes signer \<noteq> Bytes (Validator header)
               then (Some ErrMismatchSignerAndValidator, d1)
             else (None, d1))"

text \<open>
  \<open>updateMintCnt\<close>. The division by the constant \<open>epochInterval\<close> cannot panic;
  \<open>binary.BigEndian.Uint64\<close> panics on a stored count of fewer than eight bytes. The error
  of the final \<open>TryUpdate\<close> is dropped.
\<close>

definition updateMintCnt ::
  "int64 \<Rightarrow> int64 \<Rightarrow> address \<Rightarrow> DposContext \<Rightarrow> panic + DposContext" where
  "updateMintCnt parentBlockTime currentBlockTime validator dposContext =
     (let currentMintCntTrie = mintCntTrie dposContext;
          currentEpoch = quo64 parentBlockTime epochInterval;
          currentEpochBytes = PutUint64 currentEpoch;
          newEpoch = quo64 currentBlockTime epochInterval;
          cnt =
            (if currentEpoch = newEpoch then
               (if NodeIterator currentMintCntTrie currentEpochBytes \<noteq> [] then
                  (case Get currentMintCntTrie (currentEpochBytes @ Bytes validator) of
                     None \<Rightarrow> Inr 1
                   | Some cntBytes \<Rightarrow>
                       (case Uint64 cntBytes of Inl x \<Rightarrow> Inl x | Inr old \<Rightarrow> Inr (old + 1)))
                else Inr 1)
             else Inr 1)
      in case cnt of
           Inl x \<Rightarrow> Inl x
         | Inr c \<Rightarrow>
             Inr (dposContext\<lparr>mintCntTrie :=
                    snd (TryUpdate (mintCntTrie dposContext)
                           (PutUint64 newEpoch @ Bytes validator) (PutUint64 c))\<rparr>))"

text \<open>The confirmation tracker.\<close>

definition loadConfirmedBlockHeader :: "ChainReader \<Rightarrow> Dpos \<Rightarrow> error + Header" where
  "loadConfirmedBlockHeader chain s =
     (case ethdb_Get (db_Dpos s) confirmedBlockHead of
        Inl err \<Rightarrow> Inl err
      | Inr key \<Rightarrow>
          (case GetHeaderByHash chain (BytesToHash key) of
             None \<Rightarrow> Inl ErrNilBlockHeader
           | Some header \<Rightarrow> Inr header))"

definition storeConfirmedBlockHeader :: "primitives \<Rightarrow> Dpos \<Rightarrow> panic + error option \<times> Dpos" where
  "storeConfirmedBlockHeader ext s =
     (case confirmedBlockHeader s of
        None \<Rightarrow> Inl NilPointer
      | Some header \<Rightarrow>
          (let (err, kv) = ethdb_Put (db_Dpos s) confirmedBlockHead (HeaderHash ext header)
           in Inr (err, s\<lparr>db_Dpos := kv\<rparr>)))"

text \<open>
  The loop of \<open>updateConfirmedBlockHeader\<close>, with fuel: \<open>None\<close> when the fuel runs out
  before the loop ends. \<open>validatorMap\<close> is a list without repetitions, its length the
  \<open>len\<close> of the Go map; \<open>int\<close> is 64 bits wide.
\<close>

fun confirm_loop ::
  "nat \<Rightarrow> primitives \<Rightarrow> ChainReader \<Rightarrow> Header option \<Rightarrow> Dpos \<Rightarrow> Header \<Rightarrow> int64
     \<Rightarrow> address list \<Rightarrow> (panic + error option \<times> Dpos) option" where
  "confirm_loop 0 ext chain genesisHeader d curHeader epoch validatorMap = None"
| "confirm_loop (Suc fuel) ext chain genesisHeader d curHeader epoch validatorMap =
     (case confirmedBlockHeader d of
        None \<Rightarrow> Some (Inl NilPointer)
      | Some confirmed \<Rightarrow>
          if HeaderHash ext confirmed \<noteq> HeaderHash ext curHeader
             \<and> big_Uint64 (Number confirmed) < big_Uint64 (Number curHeader)
          then
            (let curEpoch = quo64 (big_Int64 (Time curHeader)) epochInterval;
                 epoch1 = (if curEpoch \<noteq> epoch then curEpoch else epoch);
                 validatorMap1 = (if curEpoch \<noteq> epoch then [] else validatorMap)
             in case genesisHeader of
                  None \<Rightarrow> Some (Inl NilPointer)
                | Some genesis \<Rightarrow>
                    (let consensusSize = (MaxValidatorSize genesis * 2) div 3 + 1
                     in if sint (big_Int64 (Number curHeader) - big_Int64 (Number confirmed))
                           < sint (consensusSize - of_nat (length validatorMap1))
                        then Some (Inr (None, d))
                        else
                          (let validatorMap2 = List.insert (Validator curHeader) validatorMap1
                           in if sint consensusSize
                                   \<le> sint (of_nat (length validatorMap2) :: int64)
                              then
                                (case storeConfirmedBlockHeader ext
                                        (d\<lparr>confirmedBlockHeader := Some curHeader\<rparr>) of
                                   Inl x \<Rightarrow> Some (Inl x)
                                 | Inr r \<Rightarrow> Some (Inr r))
                              else
                                (case GetHeaderByHash chain (ParentHash curHeader) of
                                   None \<Rightarrow> Some (Inr (Some ErrNilBlockHeader, d))
                                 | Some parent \<Rightarrow>
                                     confirm_loop fuel ext chain genesisHeader d parent
                                       epoch1 validatorMap2))))
          else Some (Inr (None, d)))"

definition updateConfirmedBlockHeader ::
  "nat \<Rightarrow> primitives \<Rightarrow> ChainReader \<Rightarrow> Dpos \<Rightarrow> (panic + error option \<times> Dpos) option" where
  "updateConfirmedBlockHeader fuel ext chain d =
     (case (case confirmedBlockHeader d of
              Some h \<Rightarrow> Inr d
            | None \<Rightarrow>
                (case loadConfirmedBlockHeader chain d of
                   Inr header \<Rightarrow> Inr (d\<lparr>confirmedBlockHeader := Some header\<rparr>)
                 | Inl err \<Rightarrow>
                     (case GetHeaderByNumber chain 0 of
                        None \<Rightarrow> Inl err
                      | Some header \<Rightarrow> Inr (d\<lparr>confirmedBlockHeader := Some header\<rparr>)))) of
        Inl err \<Rightarrow> Some (Inr (Some err, d))
      | Inr d1 \<Rightarrow>
          (case CurrentHeader chain of
             None \<Rightarrow> Some (Inl NilPointer)
           | Some curHeader \<Rightarrow>
               confirm_loop fuel ext chain (GetHeaderByNumber chain 0) d1 curHeader (- 1) []))"

text \<open>
  Data of the engine's scenarios. The stand-in primitives take the big-endian block number
  as the hash of a header and read the signer off the first 20 bytes of the signature.
  \<open>scenario_header n v\<close> is block \<open>n\<close> of validator \<open>v\<close>, at time \<open>10 n\<close>, on top of
  block \<open>n - 1\<close> (the genesis block, \<open>n = 0\<close>, on top of the zero hash), in a chain with \<open>max_validator_size = 3\<close>; its seal names \<open>s\<close> as signer
  in \<open>sealed_header n v s\<close>. \<open>chain_of\<close> is the chain reader of a list of headers that
  runs from the genesis header to the current head.
\<close>

definition scenario_primitives :: primitives where
  "scenario_primitives =
     \<lparr>HeaderHash = (\<lambda>h. PutUint64 (big_Uint64 (Number h))),
      RecoverSigner = (\<lambda>h sig. Inr (BytesToAddress (take 20 sig)))\<rparr>"

definition sealed_header :: "int \<Rightarrow> address \<Rightarrow> address \<Rightarrow> Header" where
  "sealed_header n v s =
     \<lparr>ParentHash = (if n \<le> 0 then zero_hash else PutUint64 (big_Uint64 (n - 1))),
      Validator = v, Number = n,
      Time = 10 * n, Extra = replicate 32 0 @ Bytes s @ replicate 45 0,
      MaxValidatorSize = 3\<rparr>"

definition scenario_header :: "int \<Rightarrow> address \<Rightarrow> Header" where
  "scenario_header n v = sealed_header n v v"

definition chain_of :: "primitives \<Rightarrow> Header list \<Rightarrow> ChainReader" where
  "chain_of ext hs =
     \<lparr>CurrentHeader = (if hs = [] then None else Some (last hs)),
      GetHeaderByNumber = (\<lambda>n. find (\<lambda>h. big_Uint64 (Number h) = n) hs),
      GetHeaderByHash = (\<lambda>x. find (\<lambda>h. HeaderHash ext h = x) hs)\<rparr>"

definition scenario_chain :: "address list \<Rightarrow> ChainReader" where
  "scenario_chain vs =
     chain_of scenario_primitives
       (scenario_header 0 (scenario_address 0)
        # map (\<lambda>iv. scenario_header (int (fst iv) + 1) (snd iv)) (enumerate 0 vs))"

definition scenario_engine :: Dpos where
  "scenario_engine =
     \<lparr>db_Dpos = \<lparr>content = (\<lambda>k. None), put_fault = None\<rparr>,
      signatures = (\<lambda>h. None), confirmedBlockHeader = None\<rparr>"

text \<open>
  What a run of the confirmation tracker leaves behind: its error, the confirmed header
  and the hash persisted under \<open>confirmed-block-head\<close>.
\<close>

definition outcome ::
  "(panic + error option \<times> Dpos) option
     \<Rightarrow> (panic + error option \<times> Header option \<times> bytes option) option" where
  "outcome r =
     map_option
       (map_sum id
          (\<lambda>x. (fst x, confirmedBlockHeader (snd x),
                 content (db_Dpos (snd x)) confirmedBlockHead))) r"

text \<open>The empty context after one block of validator \<open>0x01\<dots>01\<close> in epoch 0.\<close>

definition minted_once :: DposContext where
  "minted_once = projr (updateMintCnt 100 200 (scenario_address 1) empty_context)"

section \<open>GetValidators and SetValidators\<close>

text \<open>
  Modelled from the spec: \<open>rlp.EncodeToBytes\<close> and \<open>rlp.DecodeBytes\<close> are not among the
  sources. The spec has the ordered address list serialized in the canonical
  length-prefixed encoding: each address is a 20-byte string (header \<open>0x94\<close>), the list
  is the list header followed by its elements. \<open>getint\<close> reads a big-endian length. A
  payload whose length does not fit eight length bytes has no header and is refused. The
  decoder accepts exactly one canonical list of 20-byte strings: the empty input is not the
  encoding of any value (the empty list is \<open>0xc0\<close>) and ends the input too early.
\<close>

definition getint :: "bytes \<Rightarrow> nat" where
  "getint b = foldl (\<lambda>n x. n * 256 + unat x) 0 b"

definition address_list_payload :: "address list \<Rightarrow> bytes" where
  "address_list_payload validators = concat (map (\<lambda>a. rlp_string (Bytes a)) validators)"

definition EncodeToBytes :: "address list \<Rightarrow> error + bytes" where
  "EncodeToBytes validators =
     (let payload = address_list_payload validators
      in if 8 < length (putint (length payload)) then Inl ErrRlpEncode
         else Inr (rlp_header 192 (length payload) @ payload))"

fun decode_addresses :: "bytes \<Rightarrow> error + address list" where
  "decode_addresses [] = Inr []"
| "decode_addresses (x # rest) =
     (if x = 148 \<and> 20 \<le> length rest
      then (case decode_addresses (drop 20 rest) of
              Inl err \<Rightarrow> Inl err
            | Inr as \<Rightarrow> Inr (BytesToAddress (take 20 rest) # as))
      else Inl ErrRlpDecode)"

definition DecodeBytes :: "bytes \<Rightarrow> error + address list" where
  "DecodeBytes b =
     (case b of
        [] \<Rightarrow> Inl ErrUnexpectedEOF
      | x # rest \<Rightarrow>
          if x < 192 then Inl ErrRlpDecode
          else if x < 248 then
            (if length rest = unat (x - 192) then decode_addresses rest else Inl ErrRlpDecode)
          else
            (let n = unat (x - 247)
             in if length rest < n then Inl ErrUnexpectedEOF
                else if hd (take n rest) = 0 \<or> getint (take n rest) < 56 then Inl ErrRlpDecode
                else if length rest - n = getint (take n rest)
                  then decode_addresses (drop n rest)
                else Inl ErrRlpDecode))"

text \<open>\<open>GetValidators\<close> and \<open>SetValidators\<close> of \<open>DposContext\<close>.\<close>

definition validatorKey :: bytes where
  "validatorKey = map (of_nat \<circ> of_char) ''validator''"

definition GetValidators :: "DposContext \<Rightarrow> error + address list" where
  "GetValidators dc =
     (let key = validatorKey;
          validatorsRLP = Get (epochTrie dc) key
      in case DecodeBytes (slice validatorsRLP) of
           Inl err \<Rightarrow> Inl (ErrFailedToDecodeValidators err)
         | Inr validators \<Rightarrow> Inr validators)"

definition SetValidators :: "address list \<Rightarrow> DposContext \<Rightarrow> error option \<times> DposContext" where
  "SetValidators validators dc =
     (let key = validatorKey
      in case EncodeToBytes validators of
           Inl err \<Rightarrow> (Some (ErrFailedToEncodeValidators err), dc)
         | Inr validatorsRLP \<Rightarrow>
             (None, dc\<lparr>epochTrie := Update (epochTrie dc) key validatorsRLP\<rparr>))"



section \<open>Addresses\<close>

lemma length_Bytes [simp]: "length (Bytes a) = 20"
  using Rep_address [of a] by (simp add: Bytes_def)

lemma Bytes_inject [simp]: "Bytes a = Bytes b \<longleftrightarrow> a = b"
  by (simp add: Bytes_def Rep_address_inject)

lemma Bytes_BytesToAddress:
  "Bytes (BytesToAddress b) =
     (let c = drop (length b - 20) b in replicate (20 - length c) 0 @ c)"
  by (simp add: Bytes_def BytesToAddress_def Abs_address_inverse Let_def)

lemma BytesToAddress_Bytes [simp]: "BytesToAddress (Bytes a) = a"
  by (simp add: BytesToAddress_def Bytes_def Rep_address_inverse Rep_address [simplified])

lemma Bytes_append_inject [simp]:
  "Bytes a @ Bytes b = Bytes c @ Bytes d \<longleftrightarrow> a = c \<and> b = d"
  by simp

declare Rep_address_inverse [code abstype]
declare Bytes_BytesToAddress [unfolded Bytes_def, code abstract]

section \<open>Trie operations without storage errors\<close>

lemma TryGet_ok: "no_fault t \<Longrightarrow> TryGet t k = Inr (lookup t k)"
  by (simp add: TryGet_def no_fault_def lookup_def)

lemma Get_ok: "no_fault t \<Longrightarrow> Get t k = lookup t k"
  by (simp add: Get_def TryGet_ok)

lemma TryDelete_ok:
  "no_fault t \<Longrightarrow> TryDelete t k = (None, t\<lparr>entries := AList.delete k (entries t)\<rparr>)"
  by (simp add: TryDelete_def no_fault_def)

lemma TryUpdate_ok:
  "no_fault t \<Longrightarrow> v \<noteq> [] \<Longrightarrow>
     TryUpdate t k v = (None, t\<lparr>entries := AList.update k v (entries t)\<rparr>)"
  by (simp add: TryUpdate_def no_fault_def)

lemma no_fault_entries [simp]: "no_fault (t\<lparr>entries := es\<rparr>) = no_fault t"
  by (simp add: no_fault_def)

lemma lookup_empty_iff: "lookup t = Map.empty \<longleftrightarrow> entries t = []"
  by (auto simp: lookup_def fun_eq_iff intro: map_of_eq_empty_iff [THEN iffD1])

lemma set_leaves: "set (leaves t) = {(k, v). lookup t k = Some v}"
  by (auto simp: leaves_def lookup_def List.map_filter_def dest: map_of_SomeD
       intro!: image_eqI weak_map_of_SomeI )

lemma map_fst_map_filter_Pair:
  "map fst (List.map_filter (\<lambda>k. map_option (Pair k) (m k)) ks) = filter (\<lambda>k. m k \<noteq> None) ks"
  by (induction ks) (auto simp: List.map_filter_simps split: option.splits)

lemma keys_leaves:
  "map fst (leaves t) = filter (\<lambda>k. lookup t k \<noteq> None) (sort (remdups (map fst (entries t))))"
  unfolding leaves_def lookup_def by (rule map_fst_map_filter_Pair)

lemma distinct_leaves: "distinct (map fst (leaves t))"
  by (simp add: keys_leaves)

lemma sorted_leaves: "sorted (map fst (leaves t))"
  by (simp add: keys_leaves sorted_wrt_filter)

lemma set_PrefixIterator:
  "set (PrefixIterator t p) = {(k, v). lookup t k = Some v \<and> HasPrefix k p}"
  by (auto simp: PrefixIterator_def set_leaves)

lemma Bytes_nonempty [simp]: "Bytes a \<noteq> []" "[] \<noteq> Bytes a"
  using length_Bytes [of a] by (auto simp del: length_Bytes)

lemma lookup_entries [simp]: "lookup (t\<lparr>entries := es\<rparr>) = map_of es"
  by (rule ext) (simp add: lookup_def)

lemma BecomeCandidate_ok:
  assumes "no_fault (candidateTrie d)"
  shows "BecomeCandidate A d =
     (None, d\<lparr>candidateTrie := (candidateTrie d)\<lparr>entries := AList.update (Bytes A) (Bytes A) (entries (candidateTrie d))\<rparr>\<rparr>)"
  using assms by (simp add: BecomeCandidate_def TryUpdate_ok Let_def)

lemma Delegate_invalid:
  assumes "no_fault (candidateTrie d)" "lookup (candidateTrie d) (Bytes C) = None"
  shows "Delegate V C d = (Some ErrInvalidCandidateToDelegate, d)"
  using assms by (simp add: Delegate_def TryGet_ok)

lemma Delegate_ok:
  assumes nf: "no_fault (candidateTrie d)" "no_fault (voteTrie d)" "no_fault (delegateTrie d)"
    and c: "lookup (candidateTrie d) (Bytes C) \<noteq> None"
  shows "\<exists>d'. Delegate V C d = (None, d')
     \<and> lookup (delegateTrie d') =
         ((case lookup (voteTrie d) (Bytes V) of
             None \<Rightarrow> lookup (delegateTrie d)
           | Some old \<Rightarrow> (lookup (delegateTrie d))(old @ Bytes V := None))
          )(Bytes C @ Bytes V \<mapsto> Bytes V)
     \<and> lookup (voteTrie d') = (lookup (voteTrie d))(Bytes V \<mapsto> Bytes C)
     \<and> candidateTrie d' = candidateTrie d \<and> epochTrie d' = epochTrie d
     \<and> mintCntTrie d' = mintCntTrie d \<and> db d' = db d
     \<and> no_fault (delegateTrie d') \<and> no_fault (voteTrie d')"
  using nf c
  by (cases "lookup (voteTrie d) (Bytes V)")
     (auto simp: Delegate_def TryGet_ok TryUpdate_ok TryDelete_ok Delete_def Let_def
        update_conv' delete_conv' lookup_def)

lemma kickout_loop_ok:
  assumes "no_fault dt" "no_fault vt" "c \<noteq> []"
  shows "\<exists>dt' vt'. kickout_loop c its dt vt = (None, dt', vt')
     \<and> no_fault dt' \<and> no_fault vt'
     \<and> (\<forall>k. lookup dt' k = (if k \<in> (\<lambda>kv. c @ snd kv) ` set its then None else lookup dt k))
     \<and> (\<forall>x. lookup vt' x = (if x \<in> snd ` set its \<and> lookup vt x = Some c then None else lookup vt x))"
  using assms
proof (induction its arbitrary: dt vt)
  case Nil
  then show ?case by simp
next
  case (Cons kv its)
  let ?dt1 = "dt\<lparr>entries := AList.delete (c @ snd kv) (entries dt)\<rparr>"
  let ?vt1 = "if lookup vt (snd kv) = Some c then vt\<lparr>entries := AList.delete (snd kv) (entries vt)\<rparr> else vt"
  have step: "kickout_loop c (kv # its) dt vt = kickout_loop c its ?dt1 ?vt1"
    using Cons.prems
    by (cases "lookup vt (snd kv)") (auto simp: TryDelete_ok TryGet_ok slice_def Let_def)
  have nf: "no_fault ?dt1" "no_fault ?vt1" using Cons.prems by auto
  from Cons.IH [OF nf Cons.prems(3)] obtain dt' vt' where
    r: "kickout_loop c its ?dt1 ?vt1 = (None, dt', vt')" "no_fault dt'" "no_fault vt'"
      "\<forall>k. lookup dt' k = (if k \<in> (\<lambda>kv. c @ snd kv) ` set its then None else lookup ?dt1 k)"
      "\<forall>x. lookup vt' x = (if x \<in> snd ` set its \<and> lookup ?vt1 x = Some c then None else lookup ?vt1 x)"
    by blast
  have "\<forall>k. lookup dt' k = (if k \<in> (\<lambda>kv. c @ snd kv) ` set (kv # its) then None else lookup dt k)"
    using r(4) by (auto simp: delete_conv' lookup_def)
  moreover have "\<forall>x. lookup vt' x = (if x \<in> snd ` set (kv # its) \<and> lookup vt x = Some c then None else lookup vt x)"
    using r(5) by (auto simp: delete_conv' lookup_def)
  ultimately show ?case using step r(1,2,3) by simp
qed

section \<open>The vote operations without storage errors\<close>

lemma map_of_entries: "map_of (entries t) = lookup t"
  by (rule ext) (simp add: lookup_def)

lemma UnDelegate_cases:
  assumes nf: "no_fault (candidateTrie d)" "no_fault (voteTrie d)" "no_fault (delegateTrie d)"
  shows "UnDelegate V C d =
     (if lookup (candidateTrie d) (Bytes C) = None then (Some ErrInvalidCandidateToUndelegate, d)
      else if lookup (voteTrie d) (Bytes V) \<noteq> Some (Bytes C)
        then (Some ErrMismatchCandidateToUndelegate, d)
      else (None, d\<lparr>delegateTrie := (delegateTrie d)\<lparr>entries := AList.delete (Bytes C @ Bytes V) (entries (delegateTrie d))\<rparr>,
                     voteTrie := (voteTrie d)\<lparr>entries := AList.delete (Bytes V) (entries (voteTrie d))\<rparr>\<rparr>))"
  using nf
  by (cases "lookup (voteTrie d) (Bytes V)")
     (auto simp: UnDelegate_def TryGet_ok TryDelete_ok Let_def slice_def)

lemma HasPrefix_address [simp]: "HasPrefix (Bytes C @ Bytes V) (Bytes A) \<longleftrightarrow> C = A"
  by (simp add: HasPrefix_def)

lemma KickoutCandidate_ok:
  assumes nf: "no_fault (candidateTrie d)" "no_fault (voteTrie d)" "no_fault (delegateTrie d)"
    and rows: "delegate_rows (delegateTrie d)"
  shows "\<exists>d'. KickoutCandidate A d = (None, d')
     \<and> lookup (candidateTrie d') = (lookup (candidateTrie d))(Bytes A := None)
     \<and> (\<forall>k. lookup (delegateTrie d') k =
              (if HasPrefix k (Bytes A) then None else lookup (delegateTrie d) k))
     \<and> (\<forall>x. lookup (voteTrie d') x =
              (if lookup (delegateTrie d) (Bytes A @ x) \<noteq> None
                  \<and> lookup (voteTrie d) x = Some (Bytes A)
               then None else lookup (voteTrie d) x))
     \<and> epochTrie d' = epochTrie d \<and> mintCntTrie d' = mintCntTrie d \<and> db d' = db d
     \<and> no_fault (candidateTrie d') \<and> no_fault (delegateTrie d') \<and> no_fault (voteTrie d')"
proof -
  let ?its = "PrefixIterator (delegateTrie d) (Bytes A)"
  obtain dt' vt' where
    r: "kickout_loop (Bytes A) ?its (delegateTrie d) (voteTrie d) = (None, dt', vt')"
      "no_fault dt'" "no_fault vt'"
      "\<forall>k. lookup dt' k = (if k \<in> (\<lambda>kv. Bytes A @ snd kv) ` set ?its then None
                              else lookup (delegateTrie d) k)"
      "\<forall>x. lookup vt' x = (if x \<in> snd ` set ?its \<and> lookup (voteTrie d) x = Some (Bytes A)
                              then None else lookup (voteTrie d) x)"
    using kickout_loop_ok [OF nf(3) nf(2), of "Bytes A" ?its] by auto
  have keys: "k \<in> (\<lambda>kv. Bytes A @ snd kv) ` set ?its
                \<longleftrightarrow> lookup (delegateTrie d) k \<noteq> None \<and> HasPrefix k (Bytes A)" for k
  proof
    assume "k \<in> (\<lambda>kv. Bytes A @ snd kv) ` set ?its"
    then obtain k0 v where kv: "lookup (delegateTrie d) k0 = Some v" "HasPrefix k0 (Bytes A)"
      "k = Bytes A @ v"
      by (auto simp: set_PrefixIterator)
    from rows kv(1) obtain C V where "k0 = Bytes C @ Bytes V" "v = Bytes V"
      unfolding delegate_rows_def by blast
    with kv show "lookup (delegateTrie d) k \<noteq> None \<and> HasPrefix k (Bytes A)" by simp
  next
    assume a: "lookup (delegateTrie d) k \<noteq> None \<and> HasPrefix k (Bytes A)"
    then obtain v where v: "lookup (delegateTrie d) k = Some v" by auto
    from rows v obtain C V where cv: "k = Bytes C @ Bytes V" "v = Bytes V"
      unfolding delegate_rows_def by blast
    with a have "C = A" by simp
    with cv v a have "(k, v) \<in> set ?its" "k = Bytes A @ snd (k, v)"
      by (auto simp: set_PrefixIterator)
    thus "k \<in> (\<lambda>kv. Bytes A @ snd kv) ` set ?its" by blast
  qed
  have vals: "x \<in> snd ` set ?its \<longleftrightarrow> lookup (delegateTrie d) (Bytes A @ x) \<noteq> None" for x
  proof
    assume "x \<in> snd ` set ?its"
    then obtain k0 where kv: "lookup (delegateTrie d) k0 = Some x" "HasPrefix k0 (Bytes A)"
      by (auto simp: set_PrefixIterator)
    from rows kv(1) obtain C V where "k0 = Bytes C @ Bytes V" "x = Bytes V"
      unfolding delegate_rows_def by blast
    with kv show "lookup (delegateTrie d) (Bytes A @ x) \<noteq> None" by simp
  next
    assume "lookup (delegateTrie d) (Bytes A @ x) \<noteq> None"
    then obtain v where v: "lookup (delegateTrie d) (Bytes A @ x) = Some v" by auto
    from rows v obtain C V where cv: "Bytes A @ x = Bytes C @ Bytes V" "v = Bytes V"
      unfolding delegate_rows_def by blast
    hence "x = v" by simp
    with v have "(Bytes A @ x, x) \<in> set ?its"
      by (auto simp: set_PrefixIterator HasPrefix_def)
    thus "x \<in> snd ` set ?its" by force
  qed
  have dk: "\<forall>k. lookup dt' k = (if HasPrefix k (Bytes A) then None else lookup (delegateTrie d) k)"
    using r(4) keys by auto
  have vk: "\<forall>x. lookup vt' x =
              (if lookup (delegateTrie d) (Bytes A @ x) \<noteq> None
                  \<and> lookup (voteTrie d) x = Some (Bytes A)
               then None else lookup (voteTrie d) x)"
    using r(5) vals by auto
  show ?thesis
    using nf r(1,2,3) dk vk
    by (simp add: KickoutCandidate_def TryDelete_ok Let_def delete_conv' map_of_entries)
qed

section \<open>The vote/delegate invariant\<close>

lemma NewDposContext_fresh:
  "NewDposContext database =
     Inr \<lparr>epochTrie = \<lparr>prefix = epochPrefix, entries = [], fault = (\<lambda>_. None), commit_fault = None\<rparr>,
          delegateTrie = \<lparr>prefix = delegatePrefix, entries = [], fault = (\<lambda>_. None), commit_fault = None\<rparr>,
          voteTrie = \<lparr>prefix = votePrefix, entries = [], fault = (\<lambda>_. None), commit_fault = None\<rparr>,
          candidateTrie = \<lparr>prefix = candidatePrefix, entries = [], fault = (\<lambda>_. None), commit_fault = None\<rparr>,
          mintCntTrie = \<lparr>prefix = mintCntPrefix, entries = [], fault = (\<lambda>_. None), commit_fault = None\<rparr>,
          db = Some database\<rparr>"
  by (simp add: NewDposContext_def NewTrieWithPrefix_def)

lemma fresh_good:
  assumes "NewDposContext database = Inr d"
  shows "no_storage_errors d" "consistent d"
    "entries (epochTrie d) = []" "entries (delegateTrie d) = []" "entries (voteTrie d) = []"
    "entries (candidateTrie d) = []" "entries (mintCntTrie d) = []"
  using assms unfolding NewDposContext_fresh
  by (auto simp: no_storage_errors_def no_fault_def consistent_def delegate_rows_def lookup_def)

lemma BecomeCandidate_inv:
  assumes "no_storage_errors d" "consistent d"
  shows "no_storage_errors (snd (BecomeCandidate A d)) \<and> consistent (snd (BecomeCandidate A d))"
  using assms
  by (simp add: BecomeCandidate_ok no_storage_errors_def consistent_def)

lemma Delegate_inv:
  assumes ns: "no_storage_errors d" and co: "consistent d"
  shows "no_storage_errors (snd (Delegate V C d)) \<and> consistent (snd (Delegate V C d))"
proof (cases "lookup (candidateTrie d) (Bytes C) = None")
  case True
  then show ?thesis using ns co by (simp add: Delegate_invalid no_storage_errors_def)
next
  case False
  have nf: "no_fault (candidateTrie d)" "no_fault (voteTrie d)" "no_fault (delegateTrie d)"
    using ns by (simp_all add: no_storage_errors_def)
  from Delegate_ok [OF nf False, of V] obtain d' where
    d': "Delegate V C d = (None, d')"
      "lookup (delegateTrie d') =
         ((case lookup (voteTrie d) (Bytes V) of
             None \<Rightarrow> lookup (delegateTrie d)
           | Some old \<Rightarrow> (lookup (delegateTrie d))(old @ Bytes V := None))
          )(Bytes C @ Bytes V \<mapsto> Bytes V)"
      "lookup (voteTrie d') = (lookup (voteTrie d))(Bytes V \<mapsto> Bytes C)"
      "candidateTrie d' = candidateTrie d" "epochTrie d' = epochTrie d"
      "mintCntTrie d' = mintCntTrie d"
      "no_fault (delegateTrie d')" "no_fault (voteTrie d')"
    by blast
  have rows: "delegate_rows (delegateTrie d)"
    and vrows: "\<And>x c. lookup (voteTrie d) x = Some c \<Longrightarrow> \<exists>V C. x = Bytes V \<and> c = Bytes C"
    and link: "\<And>C V. lookup (delegateTrie d) (Bytes C @ Bytes V) = Some (Bytes V)
                \<longleftrightarrow> lookup (voteTrie d) (Bytes V) = Some (Bytes C)"
    using co unfolding consistent_def by blast+
  have r1: "delegate_rows (delegateTrie d')"
    using rows unfolding delegate_rows_def d'(2)
    by (auto split: option.splits if_splits)
  have r2: "\<forall>x c. lookup (voteTrie d') x = Some c \<longrightarrow> (\<exists>V C. x = Bytes V \<and> c = Bytes C)"
    using vrows unfolding d'(3) by (auto split: if_splits)
  have r3: "lookup (delegateTrie d') (Bytes C1 @ Bytes V1) = Some (Bytes V1)
                \<longleftrightarrow> lookup (voteTrie d') (Bytes V1) = Some (Bytes C1)" for C1 V1
  proof (cases "lookup (voteTrie d) (Bytes V)")
    case None
    then show ?thesis using link [of C1 V1] unfolding d'(2,3) by auto
  next
    case (Some old)
    then obtain Oc where Oc: "old = Bytes Oc" using vrows by blast
    show ?thesis using link [of C1 V1] Some unfolding d'(2,3) Oc by auto
  qed
  show ?thesis
    using ns d' r1 r2 r3 by (simp add: no_storage_errors_def consistent_def)
qed

lemma UnDelegate_inv:
  assumes ns: "no_storage_errors d" and co: "consistent d"
  shows "no_storage_errors (snd (UnDelegate V C d)) \<and> consistent (snd (UnDelegate V C d))"
proof -
  have nf: "no_fault (candidateTrie d)" "no_fault (voteTrie d)" "no_fault (delegateTrie d)"
    using ns by (simp_all add: no_storage_errors_def)
  have rows: "delegate_rows (delegateTrie d)"
    and vrows: "\<And>x c. lookup (voteTrie d) x = Some c \<Longrightarrow> \<exists>V C. x = Bytes V \<and> c = Bytes C"
    and link: "\<And>C V. lookup (delegateTrie d) (Bytes C @ Bytes V) = Some (Bytes V)
                \<longleftrightarrow> lookup (voteTrie d) (Bytes V) = Some (Bytes C)"
    using co unfolding consistent_def by blast+
  show ?thesis
  proof (cases "lookup (candidateTrie d) (Bytes C) \<noteq> None \<and> lookup (voteTrie d) (Bytes V) = Some (Bytes C)")
    case False
    then show ?thesis using ns co by (auto simp: UnDelegate_cases [OF nf])
  next
    case True
    let ?d' = "d\<lparr>delegateTrie := (delegateTrie d)\<lparr>entries := AList.delete (Bytes C @ Bytes V) (entries (delegateTrie d))\<rparr>,
                     voteTrie := (voteTrie d)\<lparr>entries := AList.delete (Bytes V) (entries (voteTrie d))\<rparr>\<rparr>"
    have eq: "snd (UnDelegate V C d) = ?d'" using True by (auto simp: UnDelegate_cases [OF nf])
    have r1: "delegate_rows (delegateTrie ?d')"
      using rows unfolding delegate_rows_def
      by (auto simp: delete_conv' map_of_entries split: if_splits)
    have r2: "\<forall>x c. lookup (voteTrie ?d') x = Some c \<longrightarrow> (\<exists>V C. x = Bytes V \<and> c = Bytes C)"
      using vrows by (auto simp: delete_conv' map_of_entries split: if_splits)
    have r3: "lookup (delegateTrie ?d') (Bytes C1 @ Bytes V1) = Some (Bytes V1)
                \<longleftrightarrow> lookup (voteTrie ?d') (Bytes V1) = Some (Bytes C1)" for C1 V1
      using link [of C1 V1] True by (auto simp: delete_conv' map_of_entries)
    show ?thesis unfolding eq
      using ns r1 r2 r3 by (simp add: no_storage_errors_def consistent_def)
  qed
qed

lemma KickoutCandidate_inv:
  assumes ns: "no_storage_errors d" and co: "consistent d"
  shows "no_storage_errors (snd (KickoutCandidate A d)) \<and> consistent (snd (KickoutCandidate A d))"
proof -
  have nf: "no_fault (candidateTrie d)" "no_fault (voteTrie d)" "no_fault (delegateTrie d)"
    using ns by (simp_all add: no_storage_errors_def)
  have rows: "delegate_rows (delegateTrie d)"
    and vrows: "\<And>x c. lookup (voteTrie d) x = Some c \<Longrightarrow> \<exists>V C. x = Bytes V \<and> c = Bytes C"
    and link: "\<And>C V. lookup (delegateTrie d) (Bytes C @ Bytes V) = Some (Bytes V)
                \<longleftrightarrow> lookup (voteTrie d) (Bytes V) = Some (Bytes C)"
    using co unfolding consistent_def by blast+
  from KickoutCandidate_ok [OF nf rows, of A] obtain d' where
    d': "KickoutCandidate A d = (None, d')"
     "\<And>k. lookup (delegateTrie d') k =
              (if HasPrefix k (Bytes A) then None else lookup (delegateTrie d) k)"
     "\<And>x. lookup (voteTrie d') x =
              (if lookup (delegateTrie d) (Bytes A @ x) \<noteq> None
                  \<and> lookup (voteTrie d) x = Some (Bytes A)
               then None else lookup (voteTrie d) x)"
     "epochTrie d' = epochTrie d" "mintCntTrie d' = mintCntTrie d"
     "no_fault (candidateTrie d')" "no_fault (delegateTrie d')" "no_fault (voteTrie d')"
    by blast
  have r1: "delegate_rows (delegateTrie d')"
    using rows unfolding delegate_rows_def d'(2) by (auto split: if_splits)
  have r2: "\<forall>x c. lookup (voteTrie d') x = Some c \<longrightarrow> (\<exists>V C. x = Bytes V \<and> c = Bytes C)"
    using vrows unfolding d'(3) by (auto split: if_splits)
  have r3: "lookup (delegateTrie d') (Bytes C1 @ Bytes V1) = Some (Bytes V1)
                \<longleftrightarrow> lookup (voteTrie d') (Bytes V1) = Some (Bytes C1)" for C1 V1
    using link [of C1 V1] link [of A V1] unfolding d'(2,3) by auto
  show ?thesis
    using ns d' r1 r2 r3 by (simp add: no_storage_errors_def consistent_def)
qed

lemma apply_operation_inv:
  assumes "no_storage_errors d" "consistent d"
  shows "no_storage_errors (snd (apply_operation op d)) \<and> consistent (snd (apply_operation op d))"
  using assms
  by (cases op) (simp_all add: BecomeCandidate_inv KickoutCandidate_inv Delegate_inv UnDelegate_inv)

lemma run_inv:
  "no_storage_errors d \<Longrightarrow> consistent d \<Longrightarrow>
     no_storage_errors (run ops d) \<and> consistent (run ops d)"
  by (induction ops arbitrary: d) (simp_all add: apply_operation_inv)

lemma take_drop_inj: "inj (\<lambda>k :: bytes. (take 20 k, drop 20 k))"
  by (rule injI) (metis append_take_drop_id prod.inject)

lemma consistent_pairs:
  assumes co: "consistent d"
  shows "delegate_pairs d = vote_pairs d"
proof -
  let ?f = "\<lambda>kv :: bytes \<times> bytes. (take 20 (fst kv), drop 20 (fst kv))"
  let ?g = "\<lambda>kv :: bytes \<times> bytes. (snd kv, fst kv)"
  have rows: "delegate_rows (delegateTrie d)"
    and vrows: "\<And>x c. lookup (voteTrie d) x = Some c \<Longrightarrow> \<exists>V C. x = Bytes V \<and> c = Bytes C"
    and link: "\<And>C V. lookup (delegateTrie d) (Bytes C @ Bytes V) = Some (Bytes V)
                \<longleftrightarrow> lookup (voteTrie d) (Bytes V) = Some (Bytes C)"
    using co unfolding consistent_def by blast+
  have m: "map ?f (leaves (delegateTrie d))
          = map (\<lambda>k. (take 20 k, drop 20 k)) (map fst (leaves (delegateTrie d)))"
    by simp
  have "distinct (map (\<lambda>k :: bytes. (take 20 k, drop 20 k)) (map fst (leaves (delegateTrie d))))"
    using distinct_leaves [of "delegateTrie d"] inj_on_subset [OF take_drop_inj subset_UNIV]
    by (simp only: distinct_map)
  hence d1: "distinct (map ?f (leaves (delegateTrie d)))" by (simp only: m)
  have "distinct (leaves (voteTrie d))"
    using distinct_leaves [of "voteTrie d"] by (simp add: distinct_map)
  hence d2: "distinct (map ?g (leaves (voteTrie d)))"
    by (simp add: distinct_map inj_on_def prod_eq_iff)
  have "set (map ?f (leaves (delegateTrie d))) = set (map ?g (leaves (voteTrie d)))"
  proof (rule set_eqI)
    fix p :: "bytes \<times> bytes"
    show "p \<in> set (map ?f (leaves (delegateTrie d))) \<longleftrightarrow> p \<in> set (map ?g (leaves (voteTrie d)))"
    proof
      assume "p \<in> set (map ?f (leaves (delegateTrie d)))"
      then obtain k v where kv: "lookup (delegateTrie d) k = Some v" "p = (take 20 k, drop 20 k)"
        by (auto simp: set_leaves)
      from rows kv(1) obtain C V where cv: "k = Bytes C @ Bytes V" "v = Bytes V"
        unfolding delegate_rows_def by blast
      hence "lookup (voteTrie d) (Bytes V) = Some (Bytes C)" using link kv(1) by simp
      hence "(Bytes V, Bytes C) \<in> set (leaves (voteTrie d))" by (simp add: set_leaves)
      moreover have "p = ?g (Bytes V, Bytes C)" using kv(2) cv by simp
      ultimately show "p \<in> set (map ?g (leaves (voteTrie d)))" unfolding set_map by (rule image_eqI [rotated])
    next
      assume "p \<in> set (map ?g (leaves (voteTrie d)))"
      then obtain x c where xc: "lookup (voteTrie d) x = Some c" "p = (c, x)"
        by (auto simp: set_leaves)
      from vrows xc(1) obtain V C where cv: "x = Bytes V" "c = Bytes C" by blast
      hence "lookup (delegateTrie d) (Bytes C @ Bytes V) = Some (Bytes V)" using link xc(1) by simp
      hence "(Bytes C @ Bytes V, Bytes V) \<in> set (leaves (delegateTrie d))" by (simp add: set_leaves)
      moreover have "p = ?f (Bytes C @ Bytes V, Bytes V)" using xc(2) cv by simp
      ultimately show "p \<in> set (map ?f (leaves (delegateTrie d)))" unfolding set_map by (rule image_eqI [rotated])
    qed
  qed
  hence "mset (map ?f (leaves (delegateTrie d))) = mset (map ?g (leaves (voteTrie d)))"
    using d1 d2 by (rule set_eq_iff_mset_eq_distinct [THEN iffD1, rotated 2])
  thus ?thesis by (simp add: delegate_pairs_def vote_pairs_def)
qed

text \<open>
  Claim C1: starting from the empty context that \<open>NewDposContext\<close> returns, after any
  finite sequence of \<open>BecomeCandidate\<close>, \<open>KickoutCandidate\<close>, \<open>Delegate\<close> and
  \<open>UnDelegate\<close> (no storage error occurs on the way), the multiset of pairs \<open>(C, V)\<close>
  with a key \<open>C \<parallel> V\<close> in the delegate trie equals the multiset of pairs
  \<open>(vote[V], V)\<close> of the vote trie, and every voter has at most one entry in the vote
  trie.
\<close>

theorem C1_vote_delegate_consistency:
  "case NewDposContext database of
     Inl err \<Rightarrow> False
   | Inr d0 \<Rightarrow>
       no_storage_errors (run ops d0)
       \<and> delegate_pairs (run ops d0) = vote_pairs (run ops d0)
       \<and> distinct (map fst (leaves (voteTrie (run ops d0))))"
proof -
  obtain d0 where d0: "NewDposContext database = Inr d0"
    by (simp add: NewDposContext_fresh)
  have "no_storage_errors (run ops d0) \<and> consistent (run ops d0)"
    using fresh_good(1,2) [OF d0] by (rule run_inv)
  thus ?thesis using d0 by (simp add: consistent_pairs distinct_leaves)
qed

section \<open>Delegate and KickoutCandidate\<close>

lemma empty_context_eq: "NewDposContext empty_database = Inr empty_context"
  by (simp add: empty_context_def NewDposContext_fresh)

lemma two_candidates_good: "no_storage_errors two_candidates" "consistent two_candidates"
  using run_inv [OF fresh_good(1,2) [OF empty_context_eq],
      of "[OpBecomeCandidate (scenario_address 1), OpBecomeCandidate (scenario_address 2)]"]
  by (simp_all add: two_candidates_def)

lemma two_delegators_good: "no_storage_errors two_delegators" "consistent two_delegators"
  using run_inv [OF fresh_good(1,2) [OF empty_context_eq],
      of "[OpBecomeCandidate (scenario_address 1),
           OpDelegate (scenario_address 3) (scenario_address 1),
           OpDelegate (scenario_address 4) (scenario_address 1)]"]
  by (simp_all add: two_delegators_def)


text \<open>
  Claim C6: when no trie access meets a storage error, \<open>Delegate V C\<close> fails with
  \<open>InvalidCandidateToDelegate\<close> exactly when \<open>C\<close> is not in the candidate trie (and then
  changes nothing); on success the row \<open>old \<parallel> V\<close> of a previous vote \<open>vote[V] = old\<close> is
  removed from the delegate trie, then \<open>delegate[C \<parallel> V] = V\<close> and \<open>vote[V] = C\<close> are written.
  So after \<open>Delegate V A; Delegate V B\<close> with candidates \<open>A \<noteq> B\<close>, \<open>delegate[A \<parallel> V]\<close> is
  absent, \<open>delegate[B \<parallel> V]\<close> is present and \<open>vote[V] = B\<close>.
\<close>

theorem C6_delegate:
  assumes nf: "no_fault (candidateTrie d)" "no_fault (voteTrie d)" "no_fault (delegateTrie d)"
  shows "(fst (Delegate V C d) = Some ErrInvalidCandidateToDelegate
            \<longleftrightarrow> lookup (candidateTrie d) (Bytes C) = None)
    \<and> (lookup (candidateTrie d) (Bytes C) = None \<longrightarrow> snd (Delegate V C d) = d)
    \<and> (lookup (candidateTrie d) (Bytes C) \<noteq> None \<longrightarrow>
         fst (Delegate V C d) = None
         \<and> lookup (delegateTrie (snd (Delegate V C d))) =
             ((case lookup (voteTrie d) (Bytes V) of
                 None \<Rightarrow> lookup (delegateTrie d)
               | Some old \<Rightarrow> (lookup (delegateTrie d))(old @ Bytes V := None))
              )(Bytes C @ Bytes V \<mapsto> Bytes V)
         \<and> lookup (voteTrie (snd (Delegate V C d))) = (lookup (voteTrie d))(Bytes V \<mapsto> Bytes C)
         \<and> (\<forall>old. lookup (voteTrie d) (Bytes V) = Some old \<and> old \<noteq> Bytes C
                \<longrightarrow> lookup (delegateTrie (snd (Delegate V C d))) (old @ Bytes V) = None)
         \<and> lookup (delegateTrie (snd (Delegate V C d))) (Bytes C @ Bytes V) = Some (Bytes V)
         \<and> lookup (voteTrie (snd (Delegate V C d))) (Bytes V) = Some (Bytes C))
    \<and> (A \<noteq> B \<and> lookup (candidateTrie d) (Bytes A) \<noteq> None
          \<and> lookup (candidateTrie d) (Bytes B) \<noteq> None \<longrightarrow>
         lookup (delegateTrie (snd (Delegate V B (snd (Delegate V A d))))) (Bytes A @ Bytes V) = None
         \<and> lookup (delegateTrie (snd (Delegate V B (snd (Delegate V A d))))) (Bytes B @ Bytes V)
             = Some (Bytes V)
         \<and> lookup (voteTrie (snd (Delegate V B (snd (Delegate V A d))))) (Bytes V)
             = Some (Bytes B))"
proof (intro conjI impI)
  show "fst (Delegate V C d) = Some ErrInvalidCandidateToDelegate
            \<longleftrightarrow> lookup (candidateTrie d) (Bytes C) = None"
  proof (cases "lookup (candidateTrie d) (Bytes C) = None")
    case True
    then show ?thesis using nf by (simp add: Delegate_invalid)
  next
    case False
    then show ?thesis using Delegate_ok [OF nf False, of V] by auto
  qed
next
  assume "lookup (candidateTrie d) (Bytes C) = None"
  thus "snd (Delegate V C d) = d" using nf by (simp add: Delegate_invalid)
next
  assume c: "lookup (candidateTrie d) (Bytes C) \<noteq> None"
  from Delegate_ok [OF nf c, of V] obtain d' where
    d': "Delegate V C d = (None, d')"
      "lookup (delegateTrie d') =
         ((case lookup (voteTrie d) (Bytes V) of
             None \<Rightarrow> lookup (delegateTrie d)
           | Some old \<Rightarrow> (lookup (delegateTrie d))(old @ Bytes V := None))
          )(Bytes C @ Bytes V \<mapsto> Bytes V)"
      "lookup (voteTrie d') = (lookup (voteTrie d))(Bytes V \<mapsto> Bytes C)"
    by blast
  show "fst (Delegate V C d) = None" using d' by simp
  show "lookup (delegateTrie (snd (Delegate V C d))) =
             ((case lookup (voteTrie d) (Bytes V) of
                 None \<Rightarrow> lookup (delegateTrie d)
               | Some old \<Rightarrow> (lookup (delegateTrie d))(old @ Bytes V := None))
              )(Bytes C @ Bytes V \<mapsto> Bytes V)"
    using d' by simp
  show "lookup (voteTrie (snd (Delegate V C d))) = (lookup (voteTrie d))(Bytes V \<mapsto> Bytes C)"
    using d' by simp
  show "\<forall>old. lookup (voteTrie d) (Bytes V) = Some old \<and> old \<noteq> Bytes C
                \<longrightarrow> lookup (delegateTrie (snd (Delegate V C d))) (old @ Bytes V) = None"
    using d' by auto
  show "lookup (delegateTrie (snd (Delegate V C d))) (Bytes C @ Bytes V) = Some (Bytes V)"
    using d' by simp
  show "lookup (voteTrie (snd (Delegate V C d))) (Bytes V) = Some (Bytes C)"
    using d' by simp
next
  assume h: "A \<noteq> B \<and> lookup (candidateTrie d) (Bytes A) \<noteq> None
          \<and> lookup (candidateTrie d) (Bytes B) \<noteq> None"
  from Delegate_ok [OF nf, of A V] h obtain d1 where
    d1: "Delegate V A d = (None, d1)"
      "lookup (voteTrie d1) = (lookup (voteTrie d))(Bytes V \<mapsto> Bytes A)"
      "lookup (delegateTrie d1) (Bytes A @ Bytes V) = Some (Bytes V)"
      "candidateTrie d1 = candidateTrie d" "no_fault (delegateTrie d1)" "no_fault (voteTrie d1)"
    by auto
  have nf1: "no_fault (candidateTrie d1)" "no_fault (voteTrie d1)" "no_fault (delegateTrie d1)"
    using d1 nf by simp_all
  have c1: "lookup (candidateTrie d1) (Bytes B) \<noteq> None" using h d1 by simp
  from Delegate_ok [OF nf1 c1, of V] obtain d2 where
    d2: "Delegate V B d1 = (None, d2)"
      "lookup (delegateTrie d2) =
         ((case lookup (voteTrie d1) (Bytes V) of
             None \<Rightarrow> lookup (delegateTrie d1)
           | Some old \<Rightarrow> (lookup (delegateTrie d1))(old @ Bytes V := None))
          )(Bytes B @ Bytes V \<mapsto> Bytes V)"
      "lookup (voteTrie d2) = (lookup (voteTrie d1))(Bytes V \<mapsto> Bytes B)"
    by blast
  show "lookup (delegateTrie (snd (Delegate V B (snd (Delegate V A d))))) (Bytes A @ Bytes V) = None"
    using h d1 d2 by simp
  show "lookup (delegateTrie (snd (Delegate V B (snd (Delegate V A d))))) (Bytes B @ Bytes V)
             = Some (Bytes V)"
    using d1 d2 by simp
  show "lookup (voteTrie (snd (Delegate V B (snd (Delegate V A d))))) (Bytes V) = Some (Bytes B)"
    using d1 d2 by simp
qed

theorem C6_delegate_witness:
  "no_fault (candidateTrie two_candidates) \<and> no_fault (voteTrie two_candidates)
   \<and> no_fault (delegateTrie two_candidates)
   \<and> scenario_address 1 \<noteq> scenario_address 2
   \<and> lookup (candidateTrie two_candidates) (Bytes (scenario_address 1)) \<noteq> None
   \<and> lookup (candidateTrie two_candidates) (Bytes (scenario_address 2)) \<noteq> None
   \<and> fst (Delegate (scenario_address 3) (scenario_address 1) two_candidates) = None
   \<and> lookup (delegateTrie (snd (Delegate (scenario_address 3) (scenario_address 2)
        (snd (Delegate (scenario_address 3) (scenario_address 1) two_candidates)))))
        (Bytes (scenario_address 1) @ Bytes (scenario_address 3)) = None
   \<and> lookup (delegateTrie (snd (Delegate (scenario_address 3) (scenario_address 2)
        (snd (Delegate (scenario_address 3) (scenario_address 1) two_candidates)))))
        (Bytes (scenario_address 2) @ Bytes (scenario_address 3)) = Some (Bytes (scenario_address 3))
   \<and> lookup (voteTrie (snd (Delegate (scenario_address 3) (scenario_address 2)
        (snd (Delegate (scenario_address 3) (scenario_address 1) two_candidates)))))
        (Bytes (scenario_address 3)) = Some (Bytes (scenario_address 2))
   \<and> lookup (candidateTrie empty_context) (Bytes (scenario_address 1)) = None
   \<and> fst (Delegate (scenario_address 3) (scenario_address 1) empty_context)
        = Some ErrInvalidCandidateToDelegate"
proof -
  have nf: "no_fault (candidateTrie two_candidates)" "no_fault (voteTrie two_candidates)"
    "no_fault (delegateTrie two_candidates)"
    using two_candidates_good(1) by (simp_all add: no_storage_errors_def)
  have nf0: "no_fault (candidateTrie empty_context)" "no_fault (voteTrie empty_context)"
    "no_fault (delegateTrie empty_context)"
    using fresh_good(1) [OF empty_context_eq] by (simp_all add: no_storage_errors_def)
  have ne: "scenario_address 1 \<noteq> scenario_address 2" by code_simp
  have c1: "lookup (candidateTrie two_candidates) (Bytes (scenario_address 1)) \<noteq> None"
    by code_simp
  have c2: "lookup (candidateTrie two_candidates) (Bytes (scenario_address 2)) \<noteq> None"
    by code_simp
  have c0: "lookup (candidateTrie empty_context) (Bytes (scenario_address 1)) = None"
    by code_simp
  show ?thesis
    using nf ne c1 c2 c0
      C6_delegate [OF nf, of "scenario_address 3" "scenario_address 1" "scenario_address 1" "scenario_address 2"]
      C6_delegate [OF nf0, of "scenario_address 3" "scenario_address 1"]
    by simp
qed


lemma kickout_scenario:
  assumes d0: "NewDposContext database = Inr d0"
  shows "entries (candidateTrie (snd (KickoutCandidate A (snd (Delegate V2 A (snd (Delegate V1 A
            (snd (BecomeCandidate A d0)))))))))  = []
    \<and> entries (delegateTrie (snd (KickoutCandidate A (snd (Delegate V2 A (snd (Delegate V1 A
            (snd (BecomeCandidate A d0))))))))) = []
    \<and> entries (voteTrie (snd (KickoutCandidate A (snd (Delegate V2 A (snd (Delegate V1 A
            (snd (BecomeCandidate A d0))))))))) = []
    \<and> fst (KickoutCandidate A (snd (Delegate V2 A (snd (Delegate V1 A
            (snd (BecomeCandidate A d0))))))) = None"
proof -
  define d1 where "d1 = snd (BecomeCandidate A d0)"
  define d2 where "d2 = snd (Delegate V1 A d1)"
  define d3 where "d3 = snd (Delegate V2 A d2)"
  define d4 where "d4 = snd (KickoutCandidate A d3)"
  have g0: "no_storage_errors d0" "consistent d0" using fresh_good [OF d0] by simp_all
  have g1: "no_storage_errors d1" "consistent d1"
    using BecomeCandidate_inv [OF g0, of A] by (simp_all add: d1_def)
  have g2: "no_storage_errors d2" "consistent d2"
    using Delegate_inv [OF g1, of V1 A] by (simp_all add: d2_def)
  have g3: "no_storage_errors d3" "consistent d3"
    using Delegate_inv [OF g2, of V2 A] by (simp_all add: d3_def)
  have nf0: "no_fault (candidateTrie d0)" using g0 by (simp add: no_storage_errors_def)
  have nf1: "no_fault (candidateTrie d1)" "no_fault (voteTrie d1)" "no_fault (delegateTrie d1)"
    using g1 by (simp_all add: no_storage_errors_def)
  have nf2: "no_fault (candidateTrie d2)" "no_fault (voteTrie d2)" "no_fault (delegateTrie d2)"
    using g2 by (simp_all add: no_storage_errors_def)
  have nf3: "no_fault (candidateTrie d3)" "no_fault (voteTrie d3)" "no_fault (delegateTrie d3)"
    using g3 by (simp_all add: no_storage_errors_def)
  have l1: "lookup (candidateTrie d1) = [Bytes A \<mapsto> Bytes A]"
    "lookup (delegateTrie d1) = Map.empty" "lookup (voteTrie d1) = Map.empty"
    using fresh_good [OF d0] nf0
    by (simp_all add: d1_def BecomeCandidate_ok lookup_empty_iff)
  have c1: "lookup (candidateTrie d1) (Bytes A) \<noteq> None" using l1 by simp
  have l2: "lookup (candidateTrie d2) = [Bytes A \<mapsto> Bytes A]"
    "lookup (delegateTrie d2) = [Bytes A @ Bytes V1 \<mapsto> Bytes V1]"
    "lookup (voteTrie d2) = [Bytes V1 \<mapsto> Bytes A]"
    using Delegate_ok [OF nf1 c1, of V1] l1 by (auto simp: d2_def)
  have c2: "lookup (candidateTrie d2) (Bytes A) \<noteq> None" using l2 by simp
  have l3: "lookup (candidateTrie d3) = [Bytes A \<mapsto> Bytes A]"
    "lookup (delegateTrie d3) = [Bytes A @ Bytes V1 \<mapsto> Bytes V1, Bytes A @ Bytes V2 \<mapsto> Bytes V2]"
    "lookup (voteTrie d3) = [Bytes V1 \<mapsto> Bytes A, Bytes V2 \<mapsto> Bytes A]"
    using Delegate_ok [OF nf2 c2, of V2] l2 by (auto simp: d3_def)
  have rows: "delegate_rows (delegateTrie d3)" using g3(2) by (simp add: consistent_def)
  from KickoutCandidate_ok [OF nf3 rows, of A] obtain d' where
    d': "KickoutCandidate A d3 = (None, d')"
     "lookup (candidateTrie d') = (lookup (candidateTrie d3))(Bytes A := None)"
     "\<And>k. lookup (delegateTrie d') k =
              (if HasPrefix k (Bytes A) then None else lookup (delegateTrie d3) k)"
     "\<And>x. lookup (voteTrie d') x =
              (if lookup (delegateTrie d3) (Bytes A @ x) \<noteq> None
                  \<and> lookup (voteTrie d3) x = Some (Bytes A)
               then None else lookup (voteTrie d3) x)"
    by blast
  have e1: "lookup (candidateTrie d') = Map.empty" using d'(2) l3(1) by simp
  have e2: "lookup (delegateTrie d') = Map.empty"
    by (rule ext) (simp add: d'(3) l3(2))
  have e3: "lookup (voteTrie d') = Map.empty"
    by (rule ext) (simp add: d'(4) l3(2,3))
  have "d4 = d'" using d'(1) by (simp add: d4_def)
  hence "entries (candidateTrie d4) = [] \<and> entries (delegateTrie d4) = []
      \<and> entries (voteTrie d4) = [] \<and> fst (KickoutCandidate A d3) = None"
    using e1 e2 e3 d'(1) by (simp add: lookup_empty_iff)
  thus ?thesis by (simp add: d4_def d3_def d2_def d1_def)
qed

text \<open>
  Claim C7: when no trie access meets a storage error and the delegate trie has the rows of
  the data model (key \<open>candidate \<parallel> voter\<close>, value \<open>voter\<close>), \<open>KickoutCandidate A\<close> returns
  no error, removes \<open>A\<close> from the candidate trie, removes every row of the delegate trie
  whose key starts with \<open>A\<close>, removes \<open>vote[V]\<close> for every such delegator \<open>V\<close> with
  \<open>vote[V] = A\<close>, and changes nothing else. After
  \<open>BecomeCandidate A; Delegate V1 A; Delegate V2 A; KickoutCandidate A\<close> on the empty
  context, the candidate trie and the delegate trie are empty and \<open>vote[V1]\<close>, \<open>vote[V2]\<close>
  are absent.
\<close>

theorem C7_kickout:
  assumes nf: "no_fault (candidateTrie d)" "no_fault (voteTrie d)" "no_fault (delegateTrie d)"
    and rows: "delegate_rows (delegateTrie d)"
  shows "fst (KickoutCandidate A d) = None
    \<and> lookup (candidateTrie (snd (KickoutCandidate A d))) (Bytes A) = None
    \<and> (\<forall>k. HasPrefix k (Bytes A) \<longrightarrow> lookup (delegateTrie (snd (KickoutCandidate A d))) k = None)
    \<and> (\<forall>V. lookup (delegateTrie d) (Bytes A @ Bytes V) \<noteq> None
              \<and> lookup (voteTrie d) (Bytes V) = Some (Bytes A)
            \<longrightarrow> lookup (voteTrie (snd (KickoutCandidate A d))) (Bytes V) = None)
    \<and> (\<forall>k. k \<noteq> Bytes A \<longrightarrow>
            lookup (candidateTrie (snd (KickoutCandidate A d))) k = lookup (candidateTrie d) k)
    \<and> (\<forall>k. \<not> HasPrefix k (Bytes A) \<longrightarrow>
            lookup (delegateTrie (snd (KickoutCandidate A d))) k = lookup (delegateTrie d) k)
    \<and> (\<forall>x. \<not> (lookup (delegateTrie d) (Bytes A @ x) \<noteq> None
                \<and> lookup (voteTrie d) x = Some (Bytes A)) \<longrightarrow>
            lookup (voteTrie (snd (KickoutCandidate A d))) x = lookup (voteTrie d) x)
    \<and> (case NewDposContext database of
          Inl err \<Rightarrow> False
        | Inr d0 \<Rightarrow>
            entries (candidateTrie (snd (KickoutCandidate A (snd (Delegate V2 A
               (snd (Delegate V1 A (snd (BecomeCandidate A d0))))))))) = []
            \<and> entries (delegateTrie (snd (KickoutCandidate A (snd (Delegate V2 A
               (snd (Delegate V1 A (snd (BecomeCandidate A d0))))))))) = []
            \<and> lookup (voteTrie (snd (KickoutCandidate A (snd (Delegate V2 A
               (snd (Delegate V1 A (snd (BecomeCandidate A d0))))))))) (Bytes V1) = None
            \<and> lookup (voteTrie (snd (KickoutCandidate A (snd (Delegate V2 A
               (snd (Delegate V1 A (snd (BecomeCandidate A d0))))))))) (Bytes V2) = None)"
proof -
  from KickoutCandidate_ok [OF nf rows, of A] obtain d' where
    d': "KickoutCandidate A d = (None, d')"
     "lookup (candidateTrie d') = (lookup (candidateTrie d))(Bytes A := None)"
     "\<And>k. lookup (delegateTrie d') k =
              (if HasPrefix k (Bytes A) then None else lookup (delegateTrie d) k)"
     "\<And>x. lookup (voteTrie d') x =
              (if lookup (delegateTrie d) (Bytes A @ x) \<noteq> None
                  \<and> lookup (voteTrie d) x = Some (Bytes A)
               then None else lookup (voteTrie d) x)"
    by blast
  obtain d0 where d0: "NewDposContext database = Inr d0"
    by (simp add: NewDposContext_fresh)
  have sc: "entries (candidateTrie (snd (KickoutCandidate A (snd (Delegate V2 A
               (snd (Delegate V1 A (snd (BecomeCandidate A d0))))))))) = []
            \<and> entries (delegateTrie (snd (KickoutCandidate A (snd (Delegate V2 A
               (snd (Delegate V1 A (snd (BecomeCandidate A d0))))))))) = []
            \<and> lookup (voteTrie (snd (KickoutCandidate A (snd (Delegate V2 A
               (snd (Delegate V1 A (snd (BecomeCandidate A d0))))))))) (Bytes V1) = None
            \<and> lookup (voteTrie (snd (KickoutCandidate A (snd (Delegate V2 A
               (snd (Delegate V1 A (snd (BecomeCandidate A d0))))))))) (Bytes V2) = None"
    using kickout_scenario [OF d0, of A V2 V1] by (simp add: lookup_def)
  have g: "fst (KickoutCandidate A d) = None
    \<and> lookup (candidateTrie (snd (KickoutCandidate A d))) (Bytes A) = None
    \<and> (\<forall>k. HasPrefix k (Bytes A) \<longrightarrow> lookup (delegateTrie (snd (KickoutCandidate A d))) k = None)
    \<and> (\<forall>V. lookup (delegateTrie d) (Bytes A @ Bytes V) \<noteq> None
              \<and> lookup (voteTrie d) (Bytes V) = Some (Bytes A)
            \<longrightarrow> lookup (voteTrie (snd (KickoutCandidate A d))) (Bytes V) = None)
    \<and> (\<forall>k. k \<noteq> Bytes A \<longrightarrow>
            lookup (candidateTrie (snd (KickoutCandidate A d))) k = lookup (candidateTrie d) k)
    \<and> (\<forall>k. \<not> HasPrefix k (Bytes A) \<longrightarrow>
            lookup (delegateTrie (snd (KickoutCandidate A d))) k = lookup (delegateTrie d) k)
    \<and> (\<forall>x. \<not> (lookup (delegateTrie d) (Bytes A @ x) \<noteq> None
                \<and> lookup (voteTrie d) x = Some (Bytes A)) \<longrightarrow>
            lookup (voteTrie (snd (KickoutCandidate A d))) x = lookup (voteTrie d) x)"
    using d' by simp
  show ?thesis using g sc d0 by simp
qed

theorem C7_kickout_witness:
  "no_fault (candidateTrie two_delegators) \<and> no_fault (voteTrie two_delegators)
   \<and> no_fault (delegateTrie two_delegators) \<and> delegate_rows (delegateTrie two_delegators)
   \<and> HasPrefix (Bytes (scenario_address 1) @ Bytes (scenario_address 3)) (Bytes (scenario_address 1))
   \<and> lookup (delegateTrie two_delegators) (Bytes (scenario_address 1) @ Bytes (scenario_address 3))
        \<noteq> None
   \<and> lookup (voteTrie two_delegators) (Bytes (scenario_address 3)) = Some (Bytes (scenario_address 1))
   \<and> fst (KickoutCandidate (scenario_address 1) two_delegators) = None
   \<and> lookup (candidateTrie (snd (KickoutCandidate (scenario_address 1) two_delegators)))
        (Bytes (scenario_address 1)) = None
   \<and> lookup (delegateTrie (snd (KickoutCandidate (scenario_address 1) two_delegators)))
        (Bytes (scenario_address 1) @ Bytes (scenario_address 3)) = None
   \<and> lookup (voteTrie (snd (KickoutCandidate (scenario_address 1) two_delegators)))
        (Bytes (scenario_address 3)) = None
   \<and> entries (candidateTrie (snd (KickoutCandidate (scenario_address 1) two_delegators))) = []
   \<and> entries (delegateTrie (snd (KickoutCandidate (scenario_address 1) two_delegators))) = []"
proof -
  have nf: "no_fault (candidateTrie two_delegators)" "no_fault (voteTrie two_delegators)"
    "no_fault (delegateTrie two_delegators)"
    using two_delegators_good(1) by (simp_all add: no_storage_errors_def)
  have rows: "delegate_rows (delegateTrie two_delegators)"
    using two_delegators_good(2) by (simp add: consistent_def)
  have p: "HasPrefix (Bytes (scenario_address 1) @ Bytes (scenario_address 3)) (Bytes (scenario_address 1))"
    by simp
  have c1: "lookup (delegateTrie two_delegators) (Bytes (scenario_address 1) @ Bytes (scenario_address 3))
        \<noteq> None"
    by code_simp
  have c2: "lookup (voteTrie two_delegators) (Bytes (scenario_address 3)) = Some (Bytes (scenario_address 1))"
    by code_simp
  show ?thesis
    using nf rows p c1 c2
      C7_kickout [OF nf rows, where A = "scenario_address 1" and database = empty_database
        and ?V1.0 = "scenario_address 3" and ?V2.0 = "scenario_address 4"]
    by (simp add: empty_context_eq two_delegators_def)
qed

section \<open>Commit\<close>

text \<open>
  Claim C2, as stated, fails: the tries are committed in the order epoch, delegate, vote,
  candidate, mintCnt, but the roots are flushed to the backing store in the order epoch,
  delegate, candidate, vote, mintCnt. On a context with a candidate and two delegators the
  flushed roots are not in the order of the commits.
\<close>

theorem C2_commit_order_counterexample:
  "fst (Commit scenario_root two_delegators)
     = Inr (Inr \<lparr>EpochHash = scenario_root (epochTrie two_delegators),
                 DelegateHash = scenario_root (delegateTrie two_delegators),
                 CandidateHash = scenario_root (candidateTrie two_delegators),
                 VoteHash = scenario_root (voteTrie two_delegators),
                 MintCntHash = scenario_root (mintCntTrie two_delegators)\<rparr>)
   \<and> committed (snd (snd (Commit scenario_root two_delegators)))
       = [EpochT, DelegateT, VoteT, CandidateT, MintCntT]
   \<and> flushed (snd (snd (Commit scenario_root two_delegators)))
       \<noteq> [scenario_root (epochTrie two_delegators), scenario_root (delegateTrie two_delegators),
          scenario_root (voteTrie two_delegators), scenario_root (candidateTrie two_delegators),
          scenario_root (mintCntTrie two_delegators)]"
  by code_simp

text \<open>
  Claim C2, amended: for every successful call to \<open>Commit\<close>, the five tries are committed
  in the order epoch, delegate, vote, candidate, mintCnt; after that their roots are
  flushed to the backing store in the order epoch, delegate, candidate, vote, mintCnt; and
  the call returns the five roots exactly as the commits returned them.
\<close>

theorem C2_commit_order:
  assumes "fst (Commit hashT d) = Inr (Inr proto)"
  shows "snd (snd (Commit hashT d)) =
      [TrieCommit EpochT, TrieCommit DelegateT, TrieCommit VoteT, TrieCommit CandidateT,
       TrieCommit MintCntT,
       DbCommit (hashT (epochTrie d)), DbCommit (hashT (delegateTrie d)),
       DbCommit (hashT (candidateTrie d)), DbCommit (hashT (voteTrie d)),
       DbCommit (hashT (mintCntTrie d))]
    \<and> committed (snd (snd (Commit hashT d))) = [EpochT, DelegateT, VoteT, CandidateT, MintCntT]
    \<and> flushed (snd (snd (Commit hashT d))) =
        [hashT (epochTrie d), hashT (delegateTrie d), hashT (candidateTrie d),
         hashT (voteTrie d), hashT (mintCntTrie d)]
    \<and> proto = \<lparr>EpochHash = hashT (epochTrie d), DelegateHash = hashT (delegateTrie d),
               CandidateHash = hashT (candidateTrie d), VoteHash = hashT (voteTrie d),
               MintCntHash = hashT (mintCntTrie d)\<rparr>"
proof -
  have e: "snd (snd (Commit hashT d)) =
      [TrieCommit EpochT, TrieCommit DelegateT, TrieCommit VoteT, TrieCommit CandidateT,
       TrieCommit MintCntT,
       DbCommit (hashT (epochTrie d)), DbCommit (hashT (delegateTrie d)),
       DbCommit (hashT (candidateTrie d)), DbCommit (hashT (voteTrie d)),
       DbCommit (hashT (mintCntTrie d))]"
    and p: "proto = \<lparr>EpochHash = hashT (epochTrie d), DelegateHash = hashT (delegateTrie d),
               CandidateHash = hashT (candidateTrie d), VoteHash = hashT (voteTrie d),
               MintCntHash = hashT (mintCntTrie d)\<rparr>"
    using assms
    by (auto simp: Commit_def trie_Commit_def Let_def split: option.splits sum.splits)
  show ?thesis unfolding e using p by simp
qed

theorem C2_commit_order_witness:
  "fst (Commit scenario_root two_delegators)
     = Inr (Inr \<lparr>EpochHash = scenario_root (epochTrie two_delegators),
                 DelegateHash = scenario_root (delegateTrie two_delegators),
                 CandidateHash = scenario_root (candidateTrie two_delegators),
                 VoteHash = scenario_root (voteTrie two_delegators),
                 MintCntHash = scenario_root (mintCntTrie two_delegators)\<rparr>)
   \<and> committed (snd (snd (Commit scenario_root two_delegators)))
       = [EpochT, DelegateT, VoteT, CandidateT, MintCntT]
   \<and> flushed (snd (snd (Commit scenario_root two_delegators)))
       = [scenario_root (epochTrie two_delegators), scenario_root (delegateTrie two_delegators),
          scenario_root (candidateTrie two_delegators), scenario_root (voteTrie two_delegators),
          scenario_root (mintCntTrie two_delegators)]"
proof -
  have s: "fst (Commit scenario_root two_delegators)
     = Inr (Inr \<lparr>EpochHash = scenario_root (epochTrie two_delegators),
                 DelegateHash = scenario_root (delegateTrie two_delegators),
                 CandidateHash = scenario_root (candidateTrie two_delegators),
                 VoteHash = scenario_root (voteTrie two_delegators),
                 MintCntHash = scenario_root (mintCntTrie two_delegators)\<rparr>)"
    by code_simp
  show ?thesis using s C2_commit_order [OF s] by simp
qed

section \<open>Snapshot and revert\<close>

lemma load_valid:
  "valid_pointers h p \<Longrightarrow>
     load h p = Inr \<lparr>epochTrie = h ! epochTrieP p, delegateTrie = h ! delegateTrieP p,
                voteTrie = h ! voteTrieP p, candidateTrie = h ! candidateTrieP p,
                mintCntTrie = h ! mintCntTrieP p, db = dbP p\<rparr>"
  by (simp add: load_def valid_pointers_def)

lemma length_store [simp]: "length (store p d h) = length h"
  by (simp add: store_def)

lemma store_outside:
  "i \<notin> set (pointers p) \<Longrightarrow> store p d h ! i = h ! i"
  by (simp add: store_def pointers_def)

lemma call_valid:
  assumes "valid_pointers h p"
  shows "\<exists>r h'. call m p h = Inr (r, h') \<and> valid_pointers h' p \<and> length h' = length h
      \<and> (\<forall>i. i \<notin> set (pointers p) \<longrightarrow> h' ! i = h ! i)"
  using assms
  by (simp add: call_def load_valid store_outside) (simp add: valid_pointers_def)

lemma calls_valid:
  assumes "valid_pointers h p"
  shows "\<exists>h'. calls ms p h = Inr h' \<and> valid_pointers h' p \<and> length h' = length h
      \<and> (\<forall>i. i \<notin> set (pointers p) \<longrightarrow> h' ! i = h ! i)"
  using assms
proof (induction ms arbitrary: h)
  case Nil
  then show ?case by simp
next
  case (Cons m ms)
  from call_valid [OF Cons.prems, of m] obtain r h1 where
    c: "call m p h = Inr (r, h1)" "valid_pointers h1 p" "length h1 = length h"
       "\<forall>i. i \<notin> set (pointers p) \<longrightarrow> h1 ! i = h ! i"
    by blast
  from Cons.IH [OF c(2)] obtain h' where
    r: "calls ms p h1 = Inr h'" "valid_pointers h' p" "length h' = length h1"
       "\<forall>i. i \<notin> set (pointers p) \<longrightarrow> h' ! i = h1 ! i"
    by blast
  show ?case using c r by simp
qed

text \<open>
  Claim C8: for every context \<open>d\<close> (five distinct, allocated trie pointers) and every
  sequence \<open>ms\<close> of mutating method calls on \<open>d\<close>: \<open>s = d.Snapshot()\<close>, then the calls
  \<open>ms\<close> on \<open>d\<close>, then \<open>d.RevertToSnapShot(s)\<close> leave \<open>d\<close> with five tries equal to
  those it had before the snapshot, so \<open>d.Root()\<close> afterwards is the digest that
  \<open>d.Root()\<close> returned before.
\<close>

theorem C8_snapshot_roundtrip:
  assumes v: "valid_pointers h p"
  shows "\<exists>s h1 h2 r.
      Snapshot p h = Inr (s, h1) \<and> calls ms p h1 = Inr h2
      \<and> RootP keccak hashT p h = Inr r
      \<and> RootP keccak hashT (RevertToSnapShot p s) h2 = Inr r
      \<and> map (\<lambda>i. h2 ! i) (pointers (RevertToSnapShot p s)) = map (\<lambda>i. h ! i) (pointers p)"
proof -
  let ?d = "\<lparr>epochTrie = h ! epochTrieP p, delegateTrie = h ! delegateTrieP p,
                voteTrie = h ! voteTrieP p, candidateTrie = h ! candidateTrieP p,
                mintCntTrie = h ! mintCntTrieP p, db = dbP p\<rparr>"
  let ?s = "\<lparr>epochTrieP = length h, delegateTrieP = length h + 1,
                voteTrieP = length h + 2, candidateTrieP = length h + 3,
                mintCntTrieP = length h + 4, dbP = None\<rparr>"
  let ?h1 = "h @ [epochTrie ?d, delegateTrie ?d, voteTrie ?d, candidateTrie ?d, mintCntTrie ?d]"
  have snap: "Snapshot p h = Inr (?s, ?h1)"
    using v by (simp add: Snapshot_def Copy_def load_valid)
  have v1: "valid_pointers ?h1 p"
    using v by (auto simp: valid_pointers_def list_all_iff)
  from calls_valid [OF v1, of ms] obtain h2 where
    r: "calls ms p ?h1 = Inr h2" "valid_pointers h2 p" "length h2 = length ?h1"
       "\<forall>i. i \<notin> set (pointers p) \<longrightarrow> h2 ! i = ?h1 ! i"
    by blast
  have out: "length h + k \<notin> set (pointers p)" for k
    using v by (auto simp: valid_pointers_def list_all_iff)
  have cells: "h2 ! (length h) = h ! epochTrieP p" "h2 ! (length h + 1) = h ! delegateTrieP p"
    "h2 ! (length h + 2) = h ! voteTrieP p" "h2 ! (length h + 3) = h ! candidateTrieP p"
    "h2 ! (length h + 4) = h ! mintCntTrieP p"
    using r(4) out [of 0] out [of 1] out [of 2] out [of 3] out [of 4]
    by (simp_all add: nth_append)
  have ld: "load h2 (RevertToSnapShot p ?s) = Inr ?d"
    using r(3) cells by (simp add: load_def RevertToSnapShot_def pointers_def)
  have "RootP keccak hashT p h = Inr (Root keccak hashT ?d)"
    using v by (simp add: RootP_def load_valid)
  moreover have "RootP keccak hashT (RevertToSnapShot p ?s) h2 = Inr (Root keccak hashT ?d)"
    using ld by (simp add: RootP_def)
  moreover have "map (\<lambda>i. h2 ! i) (pointers (RevertToSnapShot p ?s)) = map (\<lambda>i. h ! i) (pointers p)"
    using cells by (simp add: pointers_def RevertToSnapShot_def)
  ultimately show ?thesis using snap r(1) by blast
qed

theorem C8_snapshot_roundtrip_witness:
  "valid_pointers (snd (on_heap two_candidates)) (fst (on_heap two_candidates))
   \<and> (\<exists>s h1 h2 r.
        Snapshot (fst (on_heap two_candidates)) (snd (on_heap two_candidates)) = Inr (s, h1)
        \<and> calls [Delegate (scenario_address 3) (scenario_address 1),
                  KickoutCandidate (scenario_address 2)] (fst (on_heap two_candidates)) h1 = Inr h2
        \<and> RootP id scenario_root (fst (on_heap two_candidates)) (snd (on_heap two_candidates)) = Inr r
        \<and> RootP id scenario_root (RevertToSnapShot (fst (on_heap two_candidates)) s) h2 = Inr r
        \<and> map (\<lambda>i. h2 ! i) (pointers (RevertToSnapShot (fst (on_heap two_candidates)) s))
            = map (\<lambda>i. snd (on_heap two_candidates) ! i) (pointers (fst (on_heap two_candidates))))"
proof -
  have v: "valid_pointers (snd (on_heap two_candidates)) (fst (on_heap two_candidates))"
    by (simp add: on_heap_def valid_pointers_def pointers_def)
  show ?thesis
    using v C8_snapshot_roundtrip [OF v, of "[Delegate (scenario_address 3) (scenario_address 1),
                  KickoutCandidate (scenario_address 2)]" id scenario_root]
    by simp
qed


section \<open>Seal verification\<close>

text \<open>
  Claim C5: for every header whose signature recovers to the address \<open>S\<close>, with \<open>E\<close> the
  validator the scheduler expects for the header's time: \<open>verifyBlockSigner\<close> accepts the
  header exactly when \<open>S = E\<close> and \<open>S = header.validator\<close>; a header with \<open>S \<noteq> E\<close> is
  rejected with \<open>ErrInvalidBlockValidator\<close>, a header signed by the expected validator
  whose validator field differs from \<open>S\<close> with \<open>ErrMismatchSignerAndValidator\<close>, and
  the two errors are distinct.
\<close>

theorem C5_verify_block_signer:
  assumes "fst (ecrecover ext header (signatures d)) = Inr S"
  shows "(fst (verifyBlockSigner ext E header d) = None \<longleftrightarrow> S = E \<and> S = Validator header)
    \<and> (S \<noteq> E \<longrightarrow> fst (verifyBlockSigner ext E header d) = Some ErrInvalidBlockValidator)
    \<and> (S = E \<and> Validator header \<noteq> S \<longrightarrow>
          fst (verifyBlockSigner ext E header d) = Some ErrMismatchSignerAndValidator)
    \<and> ErrInvalidBlockValidator \<noteq> ErrMismatchSignerAndValidator"
  using assms
  by (cases "ecrecover ext header (signatures d)")
     (auto simp: verifyBlockSigner_def Let_def split: if_splits)

theorem C5_verify_block_signer_witness:
  "fst (ecrecover scenario_primitives
          (sealed_header 1 (scenario_address 2) (scenario_address 1))
          (signatures scenario_engine)) = Inr (scenario_address 1)
   \<and> fst (ecrecover scenario_primitives
          (sealed_header 1 (scenario_address 1) (scenario_address 1))
          (signatures scenario_engine)) = Inr (scenario_address 1)
   \<and> scenario_address 1 \<noteq> scenario_address 2
   \<and> fst (verifyBlockSigner scenario_primitives (scenario_address 1)
          (sealed_header 1 (scenario_address 2) (scenario_address 1)) scenario_engine)
       = Some ErrMismatchSignerAndValidator
   \<and> fst (verifyBlockSigner scenario_primitives (scenario_address 2)
          (sealed_header 1 (scenario_address 2) (scenario_address 1)) scenario_engine)
       = Some ErrInvalidBlockValidator
   \<and> fst (verifyBlockSigner scenario_primitives (scenario_address 1)
          (sealed_header 1 (scenario_address 1) (scenario_address 1)) scenario_engine)
       = None"
proof -
  have r1: "fst (ecrecover scenario_primitives
          (sealed_header 1 (scenario_address 2) (scenario_address 1))
          (signatures scenario_engine)) = Inr (scenario_address 1)"
    by code_simp
  have r2: "fst (ecrecover scenario_primitives
          (sealed_header 1 (scenario_address 1) (scenario_address 1))
          (signatures scenario_engine)) = Inr (scenario_address 1)"
    by code_simp
  have ne: "scenario_address 1 \<noteq> scenario_address 2" by code_simp
  have v: "Validator (sealed_header 1 (scenario_address 2) (scenario_address 1)) = scenario_address 2"
    "Validator (sealed_header 1 (scenario_address 1) (scenario_address 1)) = scenario_address 1"
    by (simp_all add: sealed_header_def)
  show ?thesis
    using r1 r2 ne v
      C5_verify_block_signer [OF r1, of "scenario_address 1"]
      C5_verify_block_signer [OF r1, of "scenario_address 2"]
      C5_verify_block_signer [OF r2, of "scenario_address 1"]
    by simp
qed

section \<open>The confirmation tracker\<close>

lemma confirm_loop_more_fuel:
  "confirm_loop n ext chain g d cur e W = Some r \<Longrightarrow>
     confirm_loop (n + k) ext chain g d cur e W = Some r"
proof (induction n arbitrary: d cur e W)
  case 0
  then show ?case by simp
next
  case (Suc n)
  show ?case
    using Suc.prems Suc.IH
    by (auto simp: Let_def split: option.splits if_splits sum.splits)
qed

lemma updateConfirmedBlockHeader_more_fuel:
  "updateConfirmedBlockHeader n ext chain d = Some r \<Longrightarrow>
     updateConfirmedBlockHeader (n + k) ext chain d = Some r"
  by (auto simp: updateConfirmedBlockHeader_def confirm_loop_more_fuel
      split: option.splits sum.splits)

lemma outcome_more_fuel:
  "outcome (updateConfirmedBlockHeader n ext chain d) = Some r \<Longrightarrow>
     outcome (updateConfirmedBlockHeader (n + k) ext chain d) = Some r"
  using updateConfirmedBlockHeader_more_fuel [of n ext chain d _ k]
  by (auto simp: outcome_def)

text \<open>
  Claim C4, as stated, fails: on the chain of three headers by \<open>A\<close>, \<open>B\<close>, \<open>C\<close> above
  the genesis header the tracker walks from the head back, meets the third distinct
  validator at the first header, and sets \<open>confirmed\<close> to that header, not to the third
  header, the current head.
\<close>

theorem C4_confirmation_counterexample:
  "CurrentHeader (scenario_chain [scenario_address 1, scenario_address 2, scenario_address 3])
      = Some (scenario_header 3 (scenario_address 3))
   \<and> outcome (updateConfirmedBlockHeader 3 scenario_primitives
         (scenario_chain [scenario_address 1, scenario_address 2, scenario_address 3])
         scenario_engine)
      = Some (Inr (None, Some (scenario_header 1 (scenario_address 1)), Some (PutUint64 1)))
   \<and> scenario_header 1 (scenario_address 1) \<noteq> scenario_header 3 (scenario_address 3)"
  by code_simp

lemma confirm_step:
  assumes c: "confirmedBlockHeader d = Some confirmed"
    and h: "HeaderHash ext confirmed \<noteq> HeaderHash ext cur"
    and n: "big_Uint64 (Number confirmed) < big_Uint64 (Number cur)"
    and g: "genesisHeader = Some genesis"
    and nofast: "\<not> sint (big_Int64 (Number cur) - big_Int64 (Number confirmed))
           < sint ((MaxValidatorSize genesis * 2) div 3 + 1
                   - of_nat (length (if quo64 (big_Int64 (Time cur)) epochInterval \<noteq> epoch
                                     then [] else W)))"
    and reach: "sint ((MaxValidatorSize genesis * 2) div 3 + 1)
           \<le> sint (of_nat (length (List.insert (Validator cur)
                      (if quo64 (big_Int64 (Time cur)) epochInterval \<noteq> epoch
                       then [] else W))) :: int64)"
  shows "confirm_loop (Suc fuel) ext chain genesisHeader d cur epoch W =
      Some (Inr (put_fault (db_Dpos d),
        d\<lparr>confirmedBlockHeader := Some cur,
          db_Dpos := (if put_fault (db_Dpos d) = None
                      then (db_Dpos d)\<lparr>content :=
                             (content (db_Dpos d))(confirmedBlockHead \<mapsto> HeaderHash ext cur)\<rparr>
                      else db_Dpos d)\<rparr>))"
  using assms
  by (cases "put_fault (db_Dpos d)")
     (simp_all add: Let_def storeConfirmedBlockHeader_def ethdb_Put_def)

lemma PutUint64_small:
  "PutUint64 0 = [0,0,0,0,0,0,0,0]" "PutUint64 1 = [0,0,0,0,0,0,0,1]"
  "PutUint64 2 = [0,0,0,0,0,0,0,2]" "PutUint64 3 = [0,0,0,0,0,0,0,3]"
  by code_simp+

lemma big_small:
  "big_Uint64 0 = 0" "big_Uint64 1 = 1" "big_Uint64 2 = 2" "big_Uint64 3 = 3"
  "big_Int64 0 = 0" "big_Int64 1 = 1" "big_Int64 2 = 2" "big_Int64 3 = 3"
  "big_Int64 10 = 10" "big_Int64 20 = 20" "big_Int64 30 = 30"
  by (simp_all add: big_Uint64_def big_Int64_def)

lemma quo64_small:
  "quo64 0 epochInterval = 0" "quo64 10 epochInterval = 0" "quo64 20 epochInterval = 0"
  "quo64 30 epochInterval = 0"
  by code_simp+

lemma consensus_size_3: "(3 * 2 :: 64 word) div 3 + 1 = 3"
  by code_simp

lemma three_validators_confirm:
  assumes "distinct [A, B, C]"
  shows "outcome (updateConfirmedBlockHeader (Suc (Suc (Suc k))) scenario_primitives
            (scenario_chain [A, B, C]) scenario_engine)
      = Some (Inr (None, Some (scenario_header 1 A), Some (PutUint64 1)))"
  using assms
  by (simp add: outcome_def updateConfirmedBlockHeader_def loadConfirmedBlockHeader_def
      ethdb_Get_def scenario_engine_def scenario_chain_def chain_of_def scenario_primitives_def
      scenario_header_def sealed_header_def enumerate_eq_zip storeConfirmedBlockHeader_def
      ethdb_Put_def Let_def PutUint64_small quo64_small consensus_size_3 big_small)

lemma two_validators_stay:
  assumes "A \<noteq> B"
  shows "outcome (updateConfirmedBlockHeader (Suc (Suc (Suc (Suc k)))) scenario_primitives
            (scenario_chain [A, A, B]) scenario_engine)
      = Some (Inr (None, Some (scenario_header 0 (scenario_address 0)), None))"
  using assms
  by (simp add: outcome_def updateConfirmedBlockHeader_def loadConfirmedBlockHeader_def
      ethdb_Get_def scenario_engine_def scenario_chain_def chain_of_def scenario_primitives_def
      scenario_header_def sealed_header_def enumerate_eq_zip storeConfirmedBlockHeader_def
      ethdb_Put_def Let_def PutUint64_small quo64_small consensus_size_3 big_small)

text \<open>
  Claim C4, amended: when the walk is at the header \<open>cur\<close>, the fast exit does not
  apply and the set \<open>W\<close> of distinct validators walked, \<open>cur\<close>'s validator included,
  reaches \<open>consensus_size\<close>, then \<open>confirmed\<close> is set to \<open>cur\<close> and its hash is persisted
  (unless the store refuses the write). With \<open>max_validator_size = 3\<close> and no confirmed
  header but the genesis header, on a chain of three headers in one epoch by three
  distinct validators \<open>A\<close>, \<open>B\<close>, \<open>C\<close> the tracker advances \<open>confirmed\<close> to the first
  of the three headers and persists its hash; on a chain of three headers by
  \<open>A\<close>, \<open>A\<close>, \<open>B\<close> the confirmed header stays the genesis header and nothing is persisted.
  Three rounds of the loop (four for the second chain) are enough.
\<close>

theorem C4_confirmation:
  assumes c: "confirmedBlockHeader d = Some confirmed"
    and h: "HeaderHash ext confirmed \<noteq> HeaderHash ext cur"
    and n: "big_Uint64 (Number confirmed) < big_Uint64 (Number cur)"
    and g: "genesisHeader = Some genesis"
    and nofast: "\<not> sint (big_Int64 (Number cur) - big_Int64 (Number confirmed))
           < sint ((MaxValidatorSize genesis * 2) div 3 + 1
                   - of_nat (length (if quo64 (big_Int64 (Time cur)) epochInterval \<noteq> epoch
                                     then [] else W)))"
    and reach: "sint ((MaxValidatorSize genesis * 2) div 3 + 1)
           \<le> sint (of_nat (length (List.insert (Validator cur)
                      (if quo64 (big_Int64 (Time cur)) epochInterval \<noteq> epoch
                       then [] else W))) :: int64)"
  shows "confirm_loop (Suc fuel) ext chain genesisHeader d cur epoch W =
      Some (Inr (put_fault (db_Dpos d),
        d\<lparr>confirmedBlockHeader := Some cur,
          db_Dpos := (if put_fault (db_Dpos d) = None
                      then (db_Dpos d)\<lparr>content :=
                             (content (db_Dpos d))(confirmedBlockHead \<mapsto> HeaderHash ext cur)\<rparr>
                      else db_Dpos d)\<rparr>))
    \<and> (distinct [A, B, C] \<longrightarrow>
          outcome (updateConfirmedBlockHeader (3 + k) scenario_primitives
            (scenario_chain [A, B, C]) scenario_engine)
          = Some (Inr (None, Some (scenario_header 1 A),
                       Some (HeaderHash scenario_primitives (scenario_header 1 A)))))
    \<and> (A \<noteq> B \<longrightarrow>
          outcome (updateConfirmedBlockHeader (4 + k) scenario_primitives
            (scenario_chain [A, A, B]) scenario_engine)
          = Some (Inr (None, GetHeaderByNumber (scenario_chain [A, A, B]) 0, None)))"
proof (intro conjI impI)
  show "confirm_loop (Suc fuel) ext chain genesisHeader d cur epoch W =
      Some (Inr (put_fault (db_Dpos d),
        d\<lparr>confirmedBlockHeader := Some cur,
          db_Dpos := (if put_fault (db_Dpos d) = None
                      then (db_Dpos d)\<lparr>content :=
                             (content (db_Dpos d))(confirmedBlockHead \<mapsto> HeaderHash ext cur)\<rparr>
                      else db_Dpos d)\<rparr>))"
    using c h n g nofast reach by (rule confirm_step)
next
  assume dist: "distinct [A, B, C]"
  have f: "3 + k = Suc (Suc (Suc k))" by simp
  have hh: "HeaderHash scenario_primitives (scenario_header 1 A) = PutUint64 1"
    by (simp add: scenario_primitives_def scenario_header_def sealed_header_def big_small)
  show "outcome (updateConfirmedBlockHeader (3 + k) scenario_primitives
            (scenario_chain [A, B, C]) scenario_engine)
          = Some (Inr (None, Some (scenario_header 1 A),
                       Some (HeaderHash scenario_primitives (scenario_header 1 A))))"
    unfolding f hh using dist by (rule three_validators_confirm)
next
  assume ne: "A \<noteq> B"
  have f: "4 + k = Suc (Suc (Suc (Suc k)))" by simp
  have g0: "GetHeaderByNumber (scenario_chain [A, A, B]) 0
      = Some (scenario_header 0 (scenario_address 0))"
    by (simp add: scenario_chain_def chain_of_def scenario_header_def sealed_header_def big_small)
  show "outcome (updateConfirmedBlockHeader (4 + k) scenario_primitives
            (scenario_chain [A, A, B]) scenario_engine)
          = Some (Inr (None, GetHeaderByNumber (scenario_chain [A, A, B]) 0, None))"
    unfolding f g0 using ne by (rule two_validators_stay)
qed

theorem C4_confirmation_witness:
  "confirmedBlockHeader
       (scenario_engine\<lparr>confirmedBlockHeader := Some (scenario_header 0 (scenario_address 0))\<rparr>)
     = Some (scenario_header 0 (scenario_address 0))
   \<and> HeaderHash scenario_primitives (scenario_header 0 (scenario_address 0))
       \<noteq> HeaderHash scenario_primitives (scenario_header 1 (scenario_address 1))
   \<and> big_Uint64 (Number (scenario_header 0 (scenario_address 0)))
       < big_Uint64 (Number (scenario_header 1 (scenario_address 1)))
   \<and> distinct [scenario_address 1, scenario_address 2, scenario_address 3]
   \<and> scenario_address 1 \<noteq> scenario_address 2
   \<and> outcome (confirm_loop (Suc 0) scenario_primitives
         (scenario_chain [scenario_address 1, scenario_address 2, scenario_address 3])
         (Some (scenario_header 0 (scenario_address 0)))
         (scenario_engine\<lparr>confirmedBlockHeader := Some (scenario_header 0 (scenario_address 0))\<rparr>)
         (scenario_header 1 (scenario_address 1)) 0 [scenario_address 2, scenario_address 3])
       = Some (Inr (None, Some (scenario_header 1 (scenario_address 1)), Some (PutUint64 1)))
   \<and> outcome (updateConfirmedBlockHeader (3 + 0) scenario_primitives
         (scenario_chain [scenario_address 1, scenario_address 2, scenario_address 3])
         scenario_engine)
       = Some (Inr (None, Some (scenario_header 1 (scenario_address 1)), Some (PutUint64 1)))
   \<and> outcome (updateConfirmedBlockHeader (4 + 0) scenario_primitives
         (scenario_chain [scenario_address 1, scenario_address 1, scenario_address 2])
         scenario_engine)
       = Some (Inr (None, Some (scenario_header 0 (scenario_address 0)), None))"
proof -
  let ?g = "scenario_header 0 (scenario_address 0)"
  let ?c = "scenario_header 1 (scenario_address 1)"
  let ?d = "scenario_engine\<lparr>confirmedBlockHeader := Some ?g\<rparr>"
  have c: "confirmedBlockHeader ?d = Some ?g" by simp
  have h: "HeaderHash scenario_primitives ?g \<noteq> HeaderHash scenario_primitives ?c" by code_simp
  have n: "big_Uint64 (Number ?g) < big_Uint64 (Number ?c)" by code_simp
  have nofast: "\<not> sint (big_Int64 (Number ?c) - big_Int64 (Number ?g))
           < sint ((MaxValidatorSize ?g * 2) div 3 + 1
                   - of_nat (length (if quo64 (big_Int64 (Time ?c)) epochInterval \<noteq> 0
                                     then [] else [scenario_address 2, scenario_address 3])))"
    by code_simp
  have reach: "sint ((MaxValidatorSize ?g * 2) div 3 + 1)
           \<le> sint (of_nat (length (List.insert (Validator ?c)
                      (if quo64 (big_Int64 (Time ?c)) epochInterval \<noteq> 0
                       then [] else [scenario_address 2, scenario_address 3]))) :: int64)"
    by code_simp
  have d3: "distinct [scenario_address 1, scenario_address 2, scenario_address 3]" by code_simp
  have ne: "scenario_address 1 \<noteq> scenario_address 2" by code_simp
  have g0: "GetHeaderByNumber (scenario_chain [scenario_address 1, scenario_address 1, scenario_address 2]) 0
      = Some ?g"
    by (simp add: scenario_chain_def chain_of_def scenario_header_def sealed_header_def big_small)
  have hh: "HeaderHash scenario_primitives ?c = PutUint64 1"
    by (simp add: scenario_primitives_def scenario_header_def sealed_header_def big_small)
  have pf: "put_fault (db_Dpos ?d) = None" by (simp add: scenario_engine_def)
  note t = C4_confirmation [OF c h n refl nofast reach,
      where A = "scenario_address 1" and B = "scenario_address 2" and C = "scenario_address 3"
        and k = 0 and fuel = 0
        and chain = "scenario_chain [scenario_address 1, scenario_address 2, scenario_address 3]"]
  show ?thesis
    using t h n d3 ne g0 hh pf by (simp add: outcome_def)
qed

section \<open>The mint counter\<close>

lemma le_append_self: "(s :: 'a :: linorder list) \<le> s @ v"
  by (induction s) simp_all

lemma NodeIterator_nonempty:
  assumes "lookup t (s @ v) = Some x"
  shows "NodeIterator t s \<noteq> []"
proof -
  have "(s @ v, x) \<in> set (leaves t)" using assms by (simp add: set_leaves)
  hence "(s @ v, x) \<in> set (NodeIterator t s)"
    by (simp add: NodeIterator_def le_append_self)
  thus ?thesis by auto
qed

lemma length_PutUint64 [simp]: "length (PutUint64 v) = 8"
  by (simp add: PutUint64_def)

lemma PutUint64_nonempty [simp]: "PutUint64 v \<noteq> []"
  using length_PutUint64 [of v] by (auto simp del: length_PutUint64)

text \<open>
  Claim C9: with \<open>prev_epoch = tP / epoch_interval\<close> and
  \<open>cur_epoch = tC / epoch_interval\<close>, when no access to the mintCnt trie meets a
  storage error and the count stored for \<open>(cur_epoch, V)\<close>, if any, has the eight bytes
  that \<open>updateMintCnt\<close> writes, \<open>updateMintCnt\<close> writes
  \<open>mintCnt[cur_epoch \<parallel> V]\<close>, epoch and count as big-endian 8-byte values, with the new
  count \<open>old + 1\<close> when \<open>cur_epoch = prev_epoch\<close> and an entry for
  \<open>(cur_epoch, V)\<close> exists, and with the new count 1 in every other case.
\<close>

theorem C9_update_mint_count:
  assumes nf: "no_fault (mintCntTrie d)"
    and len: "case lookup (mintCntTrie d) (PutUint64 (quo64 tC epochInterval) @ Bytes V) of
                None \<Rightarrow> True | Some old \<Rightarrow> 8 \<le> length old"
  shows "\<exists>c. updateMintCnt tP tC V d =
            Inr (d\<lparr>mintCntTrie := (mintCntTrie d)\<lparr>entries :=
                   AList.update (PutUint64 (quo64 tC epochInterval) @ Bytes V) (PutUint64 c)
                     (entries (mintCntTrie d))\<rparr>\<rparr>)
         \<and> (case lookup (mintCntTrie d) (PutUint64 (quo64 tC epochInterval) @ Bytes V) of
               None \<Rightarrow> c = 1
             | Some old \<Rightarrow>
                 if quo64 tC epochInterval = quo64 tP epochInterval
                 then \<exists>n. Uint64 old = Inr n \<and> c = n + 1
                 else c = 1)"
proof (cases "lookup (mintCntTrie d) (PutUint64 (quo64 tC epochInterval) @ Bytes V)")
  case None
  then show ?thesis
    using nf by (auto simp: updateMintCnt_def Let_def Get_ok TryUpdate_ok)
next
  case (Some old)
  hence l8: "8 \<le> length old" using len by simp
  then obtain n where n: "Uint64 old = Inr n" by (auto simp: Uint64_def)
  show ?thesis
  proof (cases "quo64 tC epochInterval = quo64 tP epochInterval")
    case True
    have it: "NodeIterator (mintCntTrie d) (PutUint64 (quo64 tP epochInterval)) \<noteq> []"
      using NodeIterator_nonempty [of "mintCntTrie d" "PutUint64 (quo64 tP epochInterval)" "Bytes V" old]
        Some True by simp
    show ?thesis
      using nf Some True n it
      by (auto simp: updateMintCnt_def Let_def Get_ok TryUpdate_ok)
  next
    case False
    then show ?thesis
      using nf Some by (auto simp: updateMintCnt_def Let_def Get_ok TryUpdate_ok)
  qed
qed

theorem C9_update_mint_count_witness:
  "no_fault (mintCntTrie minted_once)
   \<and> lookup (mintCntTrie minted_once)
         (PutUint64 (quo64 400 epochInterval) @ Bytes (scenario_address 1)) = Some (PutUint64 1)
   \<and> 8 \<le> length (PutUint64 1)
   \<and> quo64 400 epochInterval = quo64 300 epochInterval
   \<and> Uint64 (PutUint64 1) = Inr 1
   \<and> updateMintCnt 300 400 (scenario_address 1) minted_once =
        Inr (minted_once\<lparr>mintCntTrie := (mintCntTrie minted_once)\<lparr>entries :=
               AList.update (PutUint64 (quo64 400 epochInterval) @ Bytes (scenario_address 1))
                 (PutUint64 2) (entries (mintCntTrie minted_once))\<rparr>\<rparr>)"
proof -
  let ?k = "PutUint64 (quo64 400 epochInterval) @ Bytes (scenario_address 1)"
  have nf0: "no_fault (mintCntTrie empty_context)"
    using fresh_good(1) [OF empty_context_eq] by (simp add: no_storage_errors_def)
  have l0: "lookup (mintCntTrie empty_context)
              (PutUint64 (quo64 200 epochInterval) @ Bytes (scenario_address 1)) = None"
    by code_simp
  have mo: "minted_once = empty_context\<lparr>mintCntTrie := (mintCntTrie empty_context)\<lparr>entries :=
           AList.update (PutUint64 (quo64 200 epochInterval) @ Bytes (scenario_address 1))
             (PutUint64 1) (entries (mintCntTrie empty_context))\<rparr>\<rparr>"
    using C9_update_mint_count [OF nf0, of 200 "scenario_address 1" 100] l0
    by (auto simp: minted_once_def)
  have nf1: "no_fault (mintCntTrie minted_once)" by (subst mo) (simp add: nf0)
  have l1: "lookup (mintCntTrie minted_once) ?k = Some (PutUint64 1)" by code_simp
  have e: "quo64 400 epochInterval = quo64 300 epochInterval" by code_simp
  have u: "Uint64 (PutUint64 1) = Inr 1" by code_simp
  have len: "case lookup (mintCntTrie minted_once) ?k of None \<Rightarrow> True | Some old \<Rightarrow> 8 \<le> length old"
    using l1 by simp
  have "updateMintCnt 300 400 (scenario_address 1) minted_once =
        Inr (minted_once\<lparr>mintCntTrie := (mintCntTrie minted_once)\<lparr>entries :=
               AList.update ?k (PutUint64 2) (entries (mintCntTrie minted_once))\<rparr>\<rparr>)"
    using C9_update_mint_count [OF nf1 len, of 300] l1 e u by auto
  thus ?thesis using nf1 l1 e u by simp
qed

section \<open>The validator list\<close>

lemma rlp_string_address: "rlp_string (Bytes a) = 148 # Bytes a"
  by (simp add: rlp_string_def rlp_header_def)

lemma length_payload: "length (address_list_payload L) = 21 * length L"
  by (induction L) (simp_all add: address_list_payload_def rlp_string_address)

lemma decode_payload: "decode_addresses (address_list_payload L) = Inr L"
  by (induction L) (simp_all add: address_list_payload_def rlp_string_address)

lemma getint_append: "getint (b @ [x]) = getint b * 256 + unat x"
  by (simp add: getint_def)

lemma getint_putint: "getint (putint n) = n"
proof (induction n rule: putint.induct)
  case (1 n)
  show ?case
  proof (cases "n = 0")
    case True
    then show ?thesis by (simp add: putint.simps getint_def)
  next
    case False
    have "unat (of_nat (n mod 256) :: 8 word) = n mod 256"
      by (simp add: unat_of_nat)
    thus ?thesis
      using False 1 by (subst putint.simps) (simp add: getint_append)
  qed
qed

lemma putint_nonempty: "0 < n \<Longrightarrow> putint n \<noteq> []"
  by (subst putint.simps) simp

lemma hd_putint: "0 < n \<Longrightarrow> hd (putint n) \<noteq> 0"
proof (induction n rule: putint.induct)
  case (1 n)
  show ?case
  proof (cases "n div 256 = 0")
    case True
    hence lt: "n < 256" using "1.prems" by (simp add: div_eq_0_iff)
    have p: "putint n = [of_nat n]"
      using True lt "1.prems" by (subst putint.simps) (simp add: putint.simps [of 0])
    have "unat (of_nat n :: 8 word) = n" using lt by (simp add: unat_of_nat)
    hence "(of_nat n :: 8 word) \<noteq> 0" using "1.prems" by (metis unat_0 less_numeral_extra(3))
    thus ?thesis using p by simp
  next
    case False
    hence "hd (putint (n div 256)) \<noteq> 0" "putint (n div 256) \<noteq> []"
      using 1 by (simp_all add: putint_nonempty)
    thus ?thesis using "1.prems" by (subst putint.simps) simp
  qed
qed

lemma length_putint: "n < 256 ^ k \<Longrightarrow> length (putint n) \<le> k"
proof (induction k arbitrary: n)
  case 0
  then show ?case by (simp add: putint.simps)
next
  case (Suc k)
  show ?case
  proof (cases "n = 0")
    case True
    then show ?thesis by (simp add: putint.simps)
  next
    case False
    have "n div 256 < 256 ^ k" using Suc.prems by (simp add: less_mult_imp_div_less mult.commute)
    hence "length (putint (n div 256)) \<le> k" by (rule Suc.IH)
    thus ?thesis using False by (subst putint.simps) simp
  qed
qed

lemma byte_of_nat: "m < 256 \<Longrightarrow> unat (of_nat m :: 8 word) = m"
  by (simp add: unat_of_nat)

lemma decode_short_header:
  assumes "n < 56" "length payload = n"
  shows "DecodeBytes (rlp_header 192 n @ payload) = decode_addresses payload"
proof -
  have x: "(192 + of_nat n :: 8 word) = of_nat (192 + n)" by simp
  have u: "unat (of_nat (192 + n) :: 8 word) = 192 + n"
    using assms(1) by (intro byte_of_nat) simp
  have a: "\<not> (of_nat (192 + n) :: 8 word) < 192"
    using u by (simp add: word_less_nat_alt)
  have b: "(of_nat (192 + n) :: 8 word) < 248"
    using u assms(1) by (simp add: word_less_nat_alt)
  have "(of_nat (192 + n) :: 8 word) - 192 = of_nat n" by simp
  hence c: "unat ((of_nat (192 + n) :: 8 word) - 192) = n"
    using assms(1) by (simp add: byte_of_nat)
  show ?thesis
    using assms a b c unfolding rlp_header_def x
    by (simp add: DecodeBytes_def del: of_nat_add)
qed

lemma decode_long_header:
  assumes "56 \<le> n" "length (putint n) \<le> 8" "length payload = n"
  shows "DecodeBytes (rlp_header 192 n @ payload) = decode_addresses payload"
proof -
  let ?l = "length (putint n)"
  have n0: "0 < n" using assms(1) by simp
  have l1: "1 \<le> ?l" using putint_nonempty [OF n0] by (cases "putint n") simp_all
  have x: "(192 + 55 + of_nat ?l :: 8 word) = of_nat (247 + ?l)" by simp
  have u: "unat (of_nat (247 + ?l) :: 8 word) = 247 + ?l"
    using assms(2) by (intro byte_of_nat) simp
  have a: "\<not> (of_nat (247 + ?l) :: 8 word) < 192"
    using u by (simp add: word_less_nat_alt)
  have "\<not> 247 + ?l < 248" using putint_nonempty [OF n0] by simp
  hence b: "\<not> (of_nat (247 + ?l) :: 8 word) < 248"
    using u by (simp only: word_less_nat_alt) simp
  have "(of_nat (247 + ?l) :: 8 word) - 247 = of_nat ?l" by simp
  hence c: "unat ((of_nat (247 + ?l) :: 8 word) - 247) = ?l"
    using assms(2) by (simp add: byte_of_nat)
  have h: "hd (putint n) \<noteq> 0" using hd_putint [OF n0] .
  show ?thesis
    using assms a b c h unfolding rlp_header_def x
    by (simp add: DecodeBytes_def getint_putint Let_def del: of_nat_add)
qed

lemma DecodeBytes_EncodeToBytes:
  assumes "EncodeToBytes L = Inr b"
  shows "DecodeBytes b = Inr L"
proof -
  let ?p = "address_list_payload L"
  have l8: "length (putint (length ?p)) \<le> 8" and b: "b = rlp_header 192 (length ?p) @ ?p"
    using assms by (auto simp: EncodeToBytes_def Let_def split: if_splits)
  have "DecodeBytes (rlp_header 192 (length ?p) @ ?p) = decode_addresses ?p"
  proof (cases "length ?p < 56")
    case True
    then show ?thesis by (intro decode_short_header) simp_all
  next
    case False
    then show ?thesis using l8 by (intro decode_long_header) simp_all
  qed
  thus ?thesis using b by (simp add: decode_payload)
qed

lemma EncodeToBytes_nonempty: "EncodeToBytes L = Inr b \<Longrightarrow> b \<noteq> []"
  by (auto simp: EncodeToBytes_def Let_def rlp_header_def split: if_splits)

lemma EncodeToBytes_total:
  assumes "21 * length L < 2 ^ 64"
  shows "\<exists>b. EncodeToBytes L = Inr b"
proof -
  have "length (address_list_payload L) < 256 ^ 8" using assms by (simp add: length_payload)
  hence "length (putint (length (address_list_payload L))) \<le> 8" by (rule length_putint)
  thus ?thesis by (simp add: EncodeToBytes_def Let_def)
qed

text \<open>
  Claim C10: on the context that \<open>NewDposContext\<close> returns, on which \<open>SetValidators\<close> has
  not been called, the key \<open>"validator"\<close> is absent from the epoch trie and
  \<open>GetValidators\<close> returns an error (decoding the absent value fails), not the empty list;
  after \<open>SetValidators L\<close> has succeeded on a context whose epoch trie meets no storage
  error, \<open>GetValidators\<close> returns exactly \<open>L\<close>; and \<open>SetValidators L\<close> succeeds for every
  list whose encoding is shorter than \<open>2^64\<close> bytes.
\<close>

theorem C10_validators:
  "(case NewDposContext database of
      Inl err \<Rightarrow> False
    | Inr d0 \<Rightarrow>
        Get (epochTrie d0) validatorKey = None
        \<and> GetValidators d0 = Inl (ErrFailedToDecodeValidators ErrUnexpectedEOF)
        \<and> GetValidators d0 \<noteq> Inr []
        \<and> (21 * length L < 2 ^ 64 \<longrightarrow>
             fst (SetValidators L d0) = None
             \<and> GetValidators (snd (SetValidators L d0)) = Inr L))
   \<and> (no_fault (epochTrie d) \<and> fst (SetValidators L d) = None \<longrightarrow>
         GetValidators (snd (SetValidators L d)) = Inr L)
   \<and> (21 * length L < 2 ^ 64 \<longrightarrow> fst (SetValidators L d) = None)"
proof -
  have set_get: "GetValidators (snd (SetValidators L d')) = Inr L"
    if nf: "no_fault (epochTrie d')" and ok: "fst (SetValidators L d') = None" for d'
  proof -
    from ok obtain b where b: "EncodeToBytes L = Inr b"
      by (cases "EncodeToBytes L") (auto simp: SetValidators_def Let_def)
    have ne: "b \<noteq> []" using b by (rule EncodeToBytes_nonempty)
    have "Get (epochTrie (snd (SetValidators L d'))) validatorKey = Some b"
      using nf b ne
      by (simp add: SetValidators_def Let_def Update_def TryUpdate_ok Get_ok update_conv')
    thus ?thesis
      using DecodeBytes_EncodeToBytes [OF b] by (simp add: GetValidators_def Let_def slice_def)
  qed
  have total: "fst (SetValidators L d') = None" if "21 * length L < 2 ^ 64" for d'
    using EncodeToBytes_total [OF that] by (auto simp: SetValidators_def Let_def)
  obtain d0 where d0: "NewDposContext database = Inr d0"
    by (simp add: NewDposContext_fresh)
  have nf0: "no_fault (epochTrie d0)" using fresh_good(1) [OF d0] by (simp add: no_storage_errors_def)
  have g0: "Get (epochTrie d0) validatorKey = None"
    using nf0 fresh_good(3) [OF d0] by (simp add: Get_ok lookup_def)
  hence e0: "GetValidators d0 = Inl (ErrFailedToDecodeValidators ErrUnexpectedEOF)"
    by (simp add: GetValidators_def Let_def slice_def DecodeBytes_def)
  show ?thesis
    using d0 g0 e0 set_get [OF nf0] total set_get [of d] by simp
qed

theorem C10_validators_witness:
  "21 * length [scenario_address 1, scenario_address 2, scenario_address 3] < (2 :: nat) ^ 64
   \<and> no_fault (epochTrie empty_context)
   \<and> GetValidators empty_context = Inl (ErrFailedToDecodeValidators ErrUnexpectedEOF)
   \<and> fst (SetValidators [scenario_address 1, scenario_address 2, scenario_address 3]
          empty_context) = None
   \<and> GetValidators (snd (SetValidators
          [scenario_address 1, scenario_address 2, scenario_address 3] empty_context))
       = Inr [scenario_address 1, scenario_address 2, scenario_address 3]"
proof -
  have nf: "no_fault (epochTrie empty_context)"
    using fresh_good(1) [OF empty_context_eq] by (simp add: no_storage_errors_def)
  have sz: "21 * length [scenario_address 1, scenario_address 2, scenario_address 3]
      < (2 :: nat) ^ 64"
    by simp
  show ?thesis
    using nf sz
      C10_validators [where database = empty_database
        and L = "[scenario_address 1, scenario_address 2, scenario_address 3]"
        and d = empty_context]
    by (simp add: empty_context_eq)
qed

section \<open>Facts about 64-bit arithmetic\<close>

lemma sint64_of_int:
  "- (2 ^ 63) \<le> k \<Longrightarrow> k < 2 ^ 63 \<Longrightarrow> sint (word_of_int k :: 64 word) = k"
  by (simp add: sint_sbintrunc' signed_take_bit_int_eq_self)

lemma sint64_bounds: "- (2 ^ 63) \<le> sint (w :: 64 word) \<and> sint w < 2 ^ 63"
  using sint_ge [of w] sint_lt [of w] by simp

lemma int64_quo_nonneg:
  assumes "0 \<le> sint a" "0 < sint b"
  shows "int64_quo a b = Inr (word_of_int (sint a div sint b))"
proof -
  have "b \<noteq> 0" using assms(2) by auto
  moreover have "sint a sdiv sint b = sint a div sint b"
    using assms by (simp add: signed_divide_int_def sgn_if)
  ultimately show ?thesis by (simp add: int64_quo_def quo64_def)
qed

lemma sint64_sub1: "1 \<le> sint (t :: 64 word) \<Longrightarrow> sint (t - 1) = sint t - 1"
  using sint64_bounds[of t] by (simp add: sint_word_diff signed_take_bit_int_eq_self)

lemma sint64_add_sub1:
  assumes "0 \<le> sint (t :: 64 word)" "0 < sint (i :: 64 word)" "sint t + sint i \<le> 2 ^ 63"
  shows "sint (t + i - 1) = sint t + sint i - 1"
proof -
  have "t + i - 1 = word_of_int (sint t + sint i - 1)" by simp
  moreover have "sint (word_of_int (sint t + sint i - 1) :: 64 word) = sint t + sint i - 1"
    using assms by (intro sint64_of_int) auto
  ultimately show ?thesis by simp
qed

lemma sint64_add1:
  "0 \<le> sint (p :: 64 word) \<Longrightarrow> sint p < 2 ^ 63 - 1 \<Longrightarrow> sint (p + 1) = sint p + 1"
  by (simp add: sint_word_add signed_take_bit_int_eq_self)

section \<open>Slot scheduler: properties\<close>

text \<open>
  For a non-negative dividend and a positive interval the slot computation neither panics
  nor wraps: it yields the floor quotient times the interval.
\<close>

lemma slot_value:
  assumes a: "0 \<le> sint a" and b: "0 < sint b"
  shows "\<exists>s. (case int64_quo a b of Inl p \<Rightarrow> Inl p | Inr q \<Rightarrow> Inr (q * b)) = Inr s
             \<and> sint s = (sint a div sint b) * sint b"
proof -
  let ?q = "sint a div sint b"
  have q0: "0 \<le> ?q" using a b by (simp add: pos_imp_zdiv_nonneg_iff)
  have qle: "?q * sint b \<le> sint a"
    using b div_mult_mod_eq[of "sint a" "sint b"] pos_mod_sign[of "sint b" "sint a"]
    by linarith
  have sb1: "1 \<le> sint b" using b by simp
  have "?q * 1 \<le> ?q * sint b" using sb1 q0 by (rule mult_left_mono)
  hence qa: "?q \<le> sint a" using qle by simp
  have au: "sint a < 2 ^ 63" using sint64_bounds[of a] by simp
  have sq: "sint (word_of_int ?q :: 64 word) = ?q"
    using q0 qa au by (intro sint64_of_int) auto
  have nn: "0 \<le> ?q * sint b" using q0 b by simp
  have "signed_take_bit 63 (?q * sint b) = ?q * sint b"
    using nn qle au by (intro signed_take_bit_int_eq_self) auto
  hence "sint ((word_of_int ?q :: 64 word) * b) = ?q * sint b"
    by (simp add: sint_word_mult sq)
  thus ?thesis using a b by (simp add: int64_quo_nonneg)
qed

text \<open>
  Claim C3, as stated (every time \<open>t\<close>, every interval \<open>I > 0\<close>), fails at \<open>t = 0\<close>:
  Go's division truncates \<open>(0 - 1) / 10\<close> to \<open>0\<close>, not to the floor \<open>-1\<close>, so
  \<open>PrevSlot 0 10 = 0\<close>, \<open>NextSlot (0 + 1) 10 = 10\<close> but \<open>NextSlot 0 10 = 0\<close>.
\<close>

theorem C3_slot_idempotence_fails_at_zero:
  "PrevSlot 0 10 = Inr 0 \<and> NextSlot (0 + 1) 10 = Inr 10 \<and> NextSlot 0 10 = Inr 0
     \<and> NextSlot (0 + 1) 10 \<noteq> NextSlot 0 10"
  by (simp add: PrevSlot_def NextSlot_def int64_quo_def quo64_def signed_divide_int_def)

text \<open>
  Claim C3, amended: for every time \<open>t \<ge> 1\<close> and every block interval \<open>I > 0\<close> (read as
  \<open>int64\<close>) with \<open>t + I - 1\<close> representable in \<open>int64\<close>, \<open>PrevSlot\<close> and \<open>NextSlot\<close> return
  \<open>floor((t-1)/I)*I\<close> and \<open>floor((t+I-1)/I)*I\<close>,
  \<open>NextSlot (PrevSlot t + 1) = NextSlot t\<close>, and whenever \<open>t\<close> is not a multiple of \<open>I\<close>,
  \<open>PrevSlot t \<le> t < NextSlot t\<close>.
\<close>

theorem C3_slot_idempotence:
  fixes t i :: "64 word"
  assumes t1: "1 \<le> sint t" and i0: "0 < sint i" and nov: "sint t + sint i \<le> 2 ^ 63"
  shows "\<exists>p n. PrevSlot t i = Inr p \<and> NextSlot t i = Inr n \<and> NextSlot (p + 1) i = Inr n
           \<and> sint p = ((sint t - 1) div sint i) * sint i
           \<and> sint n = ((sint t + sint i - 1) div sint i) * sint i
           \<and> (\<not> sint i dvd sint t \<longrightarrow> sint p \<le> sint t \<and> sint t < sint n)"
proof -
  let ?T = "sint t" and ?J = "sint i"
  let ?q = "(?T - 1) div ?J"
  have a1: "0 \<le> sint (t - 1)" using t1 by (simp add: sint64_sub1)
  obtain p where p: "PrevSlot t i = Inr p" "sint p = ?q * ?J"
    using slot_value[OF a1 i0] t1 by (auto simp: PrevSlot_def sint64_sub1)
  have s2: "sint (t + i - 1) = ?T + ?J - 1" using t1 i0 nov by (intro sint64_add_sub1) auto
  have a2: "0 \<le> sint (t + i - 1)" using s2 t1 i0 by simp
  obtain n where n: "NextSlot t i = Inr n" "sint n = ((?T + ?J - 1) div ?J) * ?J"
    using slot_value[OF a2 i0] s2 by (auto simp: NextSlot_def)
  have q1: "(?T + ?J - 1) div ?J = ?q + 1"
    using i0 div_add_self2[of ?J "?T - 1"] by (simp add: algebra_simps)
  have q0: "0 \<le> ?q" using t1 i0 by (simp add: pos_imp_zdiv_nonneg_iff)
  have qle: "?q * ?J \<le> ?T - 1"
    using i0 div_mult_mod_eq[of "?T - 1" ?J] pos_mod_sign[of ?J "?T - 1"] by linarith
  have qgt: "?T - 1 < ?q * ?J + ?J"
    using i0 div_mult_mod_eq[of "?T - 1" ?J] pos_mod_bound[of ?J "?T - 1"] by linarith
  have p0: "0 \<le> sint p" using p(2) q0 i0 by simp
  have tu: "?T < 2 ^ 63" using sint64_bounds[of t] by simp
  have sp1: "sint (p + 1) = ?q * ?J + 1"
    using p0 p(2) qle tu by (simp add: sint64_add1)
  have nov2: "sint (p + 1) + ?J \<le> 2 ^ 63" using sp1 qle nov by linarith
  have s3: "sint (p + 1 + i - 1) = ?q * ?J + ?J"
    using sint64_add_sub1[of "p + 1" i] sp1 p0 p(2) i0 nov2 by simp
  have a3: "0 \<le> sint (p + 1 + i - 1)" using s3 q0 i0 by simp
  obtain n' where n': "NextSlot (p + 1) i = Inr n'" "sint n' = ((?q * ?J + ?J) div ?J) * ?J"
    using slot_value[OF a3 i0] s3 by (auto simp: NextSlot_def)
  have "(?q * ?J + ?J) div ?J = ?q + 1" using i0 by simp
  hence "sint n' = sint n" using n'(2) n(2) q1 by simp
  hence nn: "n' = n" by (rule signed_word_eqI)
  have nval: "sint n = ?q * ?J + ?J" using n(2) q1 by (simp add: algebra_simps)
  have "sint p \<le> ?T" using p(2) qle by simp
  moreover have "\<not> ?J dvd ?T \<Longrightarrow> ?T < sint n"
  proof -
    assume nd: "\<not> ?J dvd ?T"
    have "?T \<le> sint n" using nval qgt by simp
    moreover have "?T \<noteq> sint n" using nd nval by (metis dvd_add dvd_refl dvd_triv_right)
    ultimately show ?thesis by simp
  qed
  ultimately show ?thesis using p n n' nn by auto
qed

theorem C3_slot_idempotence_witness:
  "\<exists>p n. PrevSlot 25 10 = Inr p \<and> NextSlot 25 10 = Inr n \<and> NextSlot (p + 1) 10 = Inr n
     \<and> sint p = ((sint (25::64 word) - 1) div sint (10::64 word)) * sint (10::64 word)
     \<and> sint n = ((sint (25::64 word) + sint (10::64 word) - 1) div sint (10::64 word))
                  * sint (10::64 word)
     \<and> (\<not> sint (10::64 word) dvd sint (25::64 word)
          \<longrightarrow> sint p \<le> sint (25::64 word) \<and> sint (25::64 word) < sint n)"
  using C3_slot_idempotence[of 25 10] by simp

end
